theory Spec2Isabelle
  imports Complex_Main "HOL-Library.AList"
begin

section \<open>RouteRemotes: values, players and the Middleware pipeline\<close>

text \<open>
  The program is roblox-ts: TypeScript compiled to Luau. A Luau \<^verbatim>\<open>number\<close> is modelled
  as a \<^typ>\<open>real\<close> (the program only subtracts and compares clock readings),
  a string as a \<^typ>\<open>string\<close>, the object behind a dictionary type as a map or an
  association list, and a \<^verbatim>\<open>throw\<close> as a value of \<open>error\<close>.
\<close>

type_synonym addr = nat

datatype remoteType = Function | Event

datatype eventType = Connect | ConnectParallel | Once

text \<open>
  Every \<^verbatim>\<open>Route\<close> constructor call creates one remote instance: a \<^verbatim>\<open>RemoteEvent\<close>
  when \<^verbatim>\<open>secure\<close>, an \<^verbatim>\<open>UnreliableRemoteEvent\<close> otherwise. The instance is identified
  by a number; its place in the \<^verbatim>\<open>ReplicatedStorage\<close> folders is not modelled.
\<close>

datatype Remote = RemoteEvent nat | UnreliableRemoteEvent nat

text \<open>
  The interface \<^verbatim>\<open>SimpleRouteInfo\<close>; its fields carry the prefix \<open>sri_\<close> because the
  class \<^verbatim>\<open>Route\<close> has fields of the same names.
\<close>

record SimpleRouteInfo =
  sri_remote :: Remote
  sri_secure :: bool
  sri_remoteType :: remoteType
  sri_cooldown :: "real option"

text \<open>
  The values (\<^verbatim>\<open>unknown\<close>) that travel as arguments and replies: \<^verbatim>\<open>undefined\<close>,
  numbers, booleans and the simplified route table that \<^verbatim>\<open>get-tree\<close> returns.
\<close>

datatype lvalue =
    Undefined
  | Number real
  | Boolean bool
  | Table "(string \<times> SimpleRouteInfo) list"

record Player =
  UserId :: int
  Name :: string

datatype error =
    NotInitialized
  | InvalidPath
  | RouteNotFound string
  | DuplicateRoute string
  | NotAnEvent string
  | NotAFunction string
  | AlreadyConnected string
  | OnCooldown string
  | BootstrapFailed
  | IndexNil
  | Raised string

datatype warning =
    MiddlewareError string
  | CannotEdit string
  | DoesNotExist string string

subsection \<open>Middleware\<close>

record RouteLog =
  lastUse :: real

text \<open>
  A middleware callback is a closure of the route's owner: it may change the owner's
  own state (the world \<open>'w\<close>) and it may \<^verbatim>\<open>throw\<close>. \<open>Threw e w\<close> carries the world
  as the callback left it when it raised. Callbacks are taken not to reach back into the
  Middleware object that runs them.
\<close>

datatype 'w outcome = Threw string 'w | Done 'w

type_synonym 'w callback = "Player \<Rightarrow> lvalue list \<Rightarrow> 'w \<Rightarrow> 'w outcome"

record 'w Middleware =
  log :: "int \<rightharpoonup> RouteLog"
  clientSideCooldown :: real
  middlewares :: "'w callback list"

definition new_Middleware :: "real \<Rightarrow> 'w callback list \<Rightarrow> 'w Middleware" where
  "new_Middleware cd callBacks =
     \<lparr>log = Map.empty, clientSideCooldown = cd, middlewares = callBacks\<rparr>"

text \<open>The \<^verbatim>\<open>for (const middleware of this.middlewares)\<close> loop inside the \<^verbatim>\<open>try\<close>.\<close>

fun run_middlewares :: "'w callback list \<Rightarrow> Player \<Rightarrow> lvalue list \<Rightarrow> 'w \<Rightarrow> 'w outcome" where
  "run_middlewares [] player args w = Done w"
| "run_middlewares (middleware # rest) player args w =
     (case middleware player args w of
        Threw e w' \<Rightarrow> Threw e w'
      | Done w' \<Rightarrow> run_middlewares rest player args w')"

text \<open>
  \<^verbatim>\<open>Middleware.execute\<close>. The result is the returned boolean, the Middleware object after
  the call, the warnings printed and the owner's world after the callbacks that ran.
  \<open>update_and_run\<close> is the part of the method below the cooldown check: the log update
  and the \<^verbatim>\<open>try\<close> block.
\<close>

definition update_and_run ::
  "'w Middleware \<Rightarrow> Player \<Rightarrow> real \<Rightarrow> lvalue list \<Rightarrow> 'w \<Rightarrow> bool \<times> 'w Middleware \<times> warning list \<times> 'w"
where
  "update_and_run m player currentTime args w =
     (let m' = m\<lparr>log := (log m)(UserId player \<mapsto> \<lparr>lastUse = currentTime\<rparr>)\<rparr>
      in case run_middlewares (middlewares m') player args w of
           Threw e w' \<Rightarrow> (False, m', [MiddlewareError e], w')
         | Done w' \<Rightarrow> (True, m', [], w'))"

definition execute ::
  "'w Middleware \<Rightarrow> Player \<Rightarrow> real \<Rightarrow> lvalue list \<Rightarrow> 'w \<Rightarrow> bool \<times> 'w Middleware \<times> warning list \<times> 'w"
where
  "execute m player currentTime args w =
     (let playerId = UserId player
      in case log m playerId of
           None \<Rightarrow>
             update_and_run (m\<lparr>log := (log m)(playerId \<mapsto> \<lparr>lastUse = currentTime\<rparr>)\<rparr>)
               player currentTime args w
         | Some entry \<Rightarrow>
             if currentTime - lastUse entry < clientSideCooldown m then (False, m, [], w)
             else update_and_run m player currentTime args w)"

text \<open>Whether every callback of the chain returns normally, and the world the chain leaves.\<close>

definition all_pass :: "'w callback list \<Rightarrow> Player \<Rightarrow> lvalue list \<Rightarrow> 'w \<Rightarrow> bool" where
  "all_pass cbs player args w =
     (case run_middlewares cbs player args w of Done _ \<Rightarrow> True | Threw _ _ \<Rightarrow> False)"

definition world_after :: "'w callback list \<Rightarrow> Player \<Rightarrow> lvalue list \<Rightarrow> 'w \<Rightarrow> 'w" where
  "world_after cbs player args w =
     (case run_middlewares cbs player args w of Done w' \<Rightarrow> w' | Threw _ w' \<Rightarrow> w')"

text \<open>The cooldown test of \<^verbatim>\<open>execute\<close>: the peer has a log entry younger than the cooldown.\<close>

definition on_cooldown :: "'w Middleware \<Rightarrow> Player \<Rightarrow> real \<Rightarrow> bool" where
  "on_cooldown m player currentTime =
     (case log m (UserId player) of
        None \<Rightarrow> False
      | Some entry \<Rightarrow> currentTime - lastUse entry < clientSideCooldown m)"

section \<open>The host-side registry\<close>

subsection \<open>Luau strings and tables\<close>

text \<open>
  \<^verbatim>\<open>path.lower()\<close> is \<^verbatim>\<open>string.lower\<close>: the letters A to Z become a to z, every other
  byte stays.
\<close>

definition lower_char :: "char \<Rightarrow> char" where
  "lower_char c =
     (case map_of (zip ''ABCDEFGHIJKLMNOPQRSTUVWXYZ'' ''abcdefghijklmnopqrstuvwxyz'') c of
        None \<Rightarrow> c
      | Some l \<Rightarrow> l)"

definition lower :: "string \<Rightarrow> string" where
  "lower s = map lower_char s"

text \<open>
  \<^verbatim>\<open>path.split("/")\<close> is \<^verbatim>\<open>string.split\<close>: the pieces between the separators, empty
  pieces included, so the result is never empty.
\<close>

fun split :: "char \<Rightarrow> string \<Rightarrow> string list" where
  "split sep [] = [[]]"
| "split sep (c # cs) =
     (if c = sep then [] # split sep cs
      else (case split sep cs of [] \<Rightarrow> [[c]] | piece # pieces \<Rightarrow> (c # piece) # pieces))"

text \<open>
  A Luau table has keys that are numbers or strings. An array literal
  \<^verbatim>\<open>[x1, ..., xn]\<close> is the table with the number keys \<open>1..n\<close> and no string key.
  The TypeScript operator \<^verbatim>\<open>k in t\<close> compiles to \<^verbatim>\<open>t[k] ~= nil\<close>: it asks for a key.
\<close>

datatype lkey = KNum nat | KStr string

definition array_table :: "'a list \<Rightarrow> (lkey \<rightharpoonup> 'a)" where
  "array_table xs =
     (\<lambda>k. case k of
             KNum i \<Rightarrow> if 1 \<le> i \<and> i \<le> length xs then Some (xs ! (i - 1)) else None
           | KStr _ \<Rightarrow> None)"

definition key_in :: "lkey \<Rightarrow> (lkey \<rightharpoonup> 'a) \<Rightarrow> bool" where
  "key_in k t = (t k \<noteq> None)"

subsection \<open>Route, TreeNode and the registry state\<close>

text \<open>
  Objects live in a store and are named by their address: a \<^verbatim>\<open>Route\<close> is shared by
  the tree, by the \<^verbatim>\<open>record\<close> cache and by its listener; a \<^verbatim>\<open>Middleware\<close> is shared
  by every Route it was given to. An address handed out by \<open>new_Route\<close> or
  \<open>alloc_Middleware\<close> is never reused.

  The handler of a route is a closure of the route's owner, acting on the owner's world
  like a middleware callback; an \<^verbatim>\<open>OnInvoke\<close> handler also returns the reply. The one
  handler the registry installs itself, for \<^verbatim>\<open>get-tree\<close>, reads the registry's tree.
\<close>

datatype 'w reply = ReplyThrew string 'w | Reply lvalue 'w

type_synonym 'w invoke_callback = "Player \<Rightarrow> lvalue list \<Rightarrow> 'w \<Rightarrow> 'w reply"

datatype 'w listener =
    EventListener "'w callback"
  | InvokeListener "'w invoke_callback"
  | GetTreeListener

record 'w Connection =
  conn_eventType :: eventType
  conn_listener :: "'w listener"
  Connected :: bool

record 'w Route =
  path :: string
  name :: string
  secure :: bool
  remoteType :: remoteType
  middleware :: "addr option"
  remote :: Remote
  connection :: "'w Connection option"

text \<open>
  \<^verbatim>\<open>TreeNode\<close>: the field \<^verbatim>\<open>value\<close> is \<open>node_value\<close> here, the address of the node's
  Route; \<^verbatim>\<open>children\<close> is the dictionary from end-point name to child node. Luau does
  not fix the order in which \<^verbatim>\<open>pairs\<close> visits a dictionary; the association list keeps
  the order of insertion. A node belongs to one parent only, so the tree is a value and
  a reference to a node is its position, the list of names that leads to it from the root.
\<close>

datatype TreeNode = TreeNode (node_value: addr) (children: "(string \<times> TreeNode) list")

text \<open>
  The class \<^verbatim>\<open>Network\<close>: \<^verbatim>\<open>tree\<close>, \<^verbatim>\<open>record\<close> (here \<open>route_record\<close>) and
  \<^verbatim>\<open>unEditableRoutes\<close>. The static field \<^verbatim>\<open>instance\<close> is \<open>network_instance\<close>.
\<close>

record Network =
  tree :: TreeNode
  route_record :: "(string \<times> addr) list"
  unEditableRoutes :: "string list"

record 'w Server =
  network_instance :: "Network option"
  routes :: "addr \<Rightarrow> 'w Route"
  next_route :: addr
  mws :: "addr \<Rightarrow> 'w Middleware"
  next_mw :: addr
  cleanup_hooked :: bool
  warned :: "warning list"
  sent :: "(Remote \<times> int \<times> lvalue) list"
  world :: 'w

record RouteParam =
  endPoint :: string
  rp_secure :: bool
  rp_remoteType :: remoteType
  rp_middleware :: "addr option"

definition ROOT_ROUTE_NAME :: string where
  "ROOT_ROUTE_NAME = ''root''"

definition ROOT_ROUTE_CD :: real where
  "ROOT_ROUTE_CD = 10"

definition ROOT_ROUTE_SECURE :: bool where
  "ROOT_ROUTE_SECURE = True"

text \<open>
  \<^verbatim>\<open>ROOT_ROUTE_MIDDLEWARE = new Middleware(ROOT_ROUTE_CD)\<close> is built when the module is
  loaded: it is the Middleware at address 0 of the state the module starts in.
\<close>

definition ROOT_ROUTE_MIDDLEWARE :: "addr option" where
  "ROOT_ROUTE_MIDDLEWARE = Some 0"

definition loaded :: "'w \<Rightarrow> 'w Server" where
  "loaded w =
     \<lparr>network_instance = None,
      routes = (\<lambda>_. undefined),
      next_route = 0,
      mws = (\<lambda>_. undefined)(0 := new_Middleware ROOT_ROUTE_CD []),
      next_mw = 1,
      cleanup_hooked = False,
      warned = [],
      sent = [],
      world = w\<rparr>"

definition alloc_Middleware :: "'w Middleware \<Rightarrow> 'w Server \<Rightarrow> addr \<times> 'w Server" where
  "alloc_Middleware m s =
     (next_mw s, s\<lparr>mws := (mws s)(next_mw s := m), next_mw := Suc (next_mw s)\<rparr>)"

text \<open>The constructor of \<^verbatim>\<open>Route\<close>: a new object with a new remote of the class \<^verbatim>\<open>secure\<close> picks.\<close>

definition new_Route ::
  "string \<Rightarrow> string \<Rightarrow> bool \<Rightarrow> remoteType \<Rightarrow> addr option \<Rightarrow> 'w Server \<Rightarrow> addr \<times> 'w Server"
where
  "new_Route p n sec rt mw s =
     (let a = next_route s;
          r = \<lparr>path = p, name = n, secure = sec, remoteType = rt, middleware = mw,
               remote = (if sec then RemoteEvent a else UnreliableRemoteEvent a),
               connection = None\<rparr>
      in (a, s\<lparr>routes := (routes s)(a := r), next_route := Suc a\<rparr>))"

definition getChild :: "TreeNode \<Rightarrow> string \<Rightarrow> TreeNode option" where
  "getChild node n = map_of (children node) n"

text \<open>\<^verbatim>\<open>this.children[key] = child\<close>.\<close>

definition set_child :: "string \<Rightarrow> TreeNode \<Rightarrow> TreeNode \<Rightarrow> TreeNode" where
  "set_child key child node = TreeNode (node_value node) (AList.update key child (children node))"

text \<open>\<^verbatim>\<open>addChild\<close> files the child under the name of the child's Route.\<close>

definition addChild :: "'w Server \<Rightarrow> TreeNode \<Rightarrow> TreeNode \<Rightarrow> TreeNode" where
  "addChild s child node = set_child (name (routes s (node_value child))) child node"

text \<open>
  The node at a position, or the error \<^verbatim>\<open>traversePath\<close> raises for the first part that
  is missing; and the tree with the node at a position replaced by \<open>f\<close> of it.
\<close>

fun lookup_path :: "string list \<Rightarrow> TreeNode \<Rightarrow> error + TreeNode" where
  "lookup_path [] node = Inr node"
| "lookup_path (part # rest) node =
     (case getChild node part of
        None \<Rightarrow> Inl (RouteNotFound part)
      | Some child \<Rightarrow> lookup_path rest child)"

fun update_at :: "string list \<Rightarrow> (TreeNode \<Rightarrow> TreeNode) \<Rightarrow> TreeNode \<Rightarrow> TreeNode" where
  "update_at [] f node = f node"
| "update_at (part # rest) f node =
     (case getChild node part of
        None \<Rightarrow> node
      | Some child \<Rightarrow> set_child part (update_at rest f child) node)"

subsection \<open>depthFirstSearch\<close>

definition route_info :: "'w Server \<Rightarrow> addr \<Rightarrow> SimpleRouteInfo" where
  "route_info s a =
     (let route = routes s a
      in \<lparr>sri_remote = remote route, sri_secure = secure route, sri_remoteType = remoteType route,
          sri_cooldown = (case middleware route of
                            None \<Rightarrow> None
                          | Some m \<Rightarrow> Some (clientSideCooldown (mws s m)))\<rparr>)"

definition full_path :: "string \<Rightarrow> string \<Rightarrow> string" where
  "full_path p n = (if p = [] then n else p @ ''/'' @ n)"

text \<open>
  \<open>depthFirstSearch\<close> writes the node's entry into the table and then visits the children;
  \<open>dfs_children\<close> is its \<^verbatim>\<open>for\<close> loop over \<^verbatim>\<open>pairs(node.children)\<close>. The table is a
  dictionary: writing a key that is present overwrites its entry.
\<close>

fun depthFirstSearch ::
    "'w Server \<Rightarrow> TreeNode \<Rightarrow> string \<Rightarrow> (string \<times> SimpleRouteInfo) list \<Rightarrow> (string \<times> SimpleRouteInfo) list"
  and dfs_children ::
    "'w Server \<Rightarrow> (string \<times> TreeNode) list \<Rightarrow> string \<Rightarrow> (string \<times> SimpleRouteInfo) list \<Rightarrow> (string \<times> SimpleRouteInfo) list"
where
  "depthFirstSearch s (TreeNode a cs) p simplifiedTree =
     dfs_children s cs (full_path p (name (routes s a)))
       (AList.update (full_path p (name (routes s a))) (route_info s a) simplifiedTree)"
| "dfs_children s [] fullPath simplifiedTree = simplifiedTree"
| "dfs_children s ((key, childNode) # rest) fullPath simplifiedTree =
     dfs_children s rest fullPath (depthFirstSearch s childNode fullPath simplifiedTree)"

subsection \<open>traversePath, getRoute, OnInvoke and start\<close>

text \<open>
  The loop of \<^verbatim>\<open>traversePath\<close> over the parts after \<^verbatim>\<open>root\<close>. It returns the node it
  ends at and the current node as the loop leaves it: a node created on the way is
  added to its parent first and filled afterwards, as the source does through the
  reference. A missing part raises when \<^verbatim>\<open>createMissing\<close> is false.
\<close>

fun traverse_loop ::
  "string list \<Rightarrow> bool \<Rightarrow> string \<Rightarrow> TreeNode \<Rightarrow> 'w Server \<Rightarrow> (error + TreeNode \<times> TreeNode) \<times> 'w Server"
where
  "traverse_loop [] createMissing currentPath currentNode s = (Inr (currentNode, currentNode), s)"
| "traverse_loop (part # rest) createMissing currentPath currentNode s =
     (case getChild currentNode part of
        Some nextNode \<Rightarrow>
          (case traverse_loop rest createMissing (currentPath @ ''/'' @ part) nextNode s of
             (Inl e, s') \<Rightarrow> (Inl e, s')
           | (Inr (found, nextNode'), s') \<Rightarrow> (Inr (found, set_child part nextNode' currentNode), s'))
      | None \<Rightarrow>
          if \<not> createMissing then (Inl (RouteNotFound part), s)
          else
            (case alloc_Middleware (new_Middleware 1 []) s of (m, s1) \<Rightarrow>
            (case new_Route (currentPath @ ''/'' @ part) part True Event (Some m) s1 of (a, s2) \<Rightarrow>
            (case traverse_loop rest createMissing (currentPath @ ''/'' @ part) (TreeNode a []) s2 of
               (Inl e, s') \<Rightarrow> (Inl e, s')
             | (Inr (found, nextNode'), s') \<Rightarrow>
                 (Inr (found, set_child part nextNode' (addChild s2 (TreeNode a []) currentNode)), s')))))"

text \<open>
  The static methods read \<^verbatim>\<open>this.instance\<close>. The definitions with the suffix \<open>_in\<close> are
  their bodies for an instance that is set; \<open>start\<close> uses them, and the methods
  themselves follow \<open>start\<close>.
\<close>

definition traversePath_in ::
  "Network \<Rightarrow> string \<Rightarrow> bool \<Rightarrow> 'w Server \<Rightarrow> (error + TreeNode) \<times> 'w Server"
where
  "traversePath_in inst p createMissing s =
     (case split (CHR ''/'') (lower p) of
        [] \<Rightarrow> (Inl InvalidPath, s)
      | first # pathParts \<Rightarrow>
          if first \<noteq> ROOT_ROUTE_NAME then (Inl InvalidPath, s)
          else if pathParts = [] \<and> first = ''root'' then (Inr (tree inst), s)
          else
            (case traverse_loop pathParts createMissing ''root'' (tree inst) s of
               (Inl e, s') \<Rightarrow> (Inl e, s')
             | (Inr (found, tree'), s') \<Rightarrow>
                 (Inr found, s'\<lparr>network_instance := Some (inst\<lparr>tree := tree'\<rparr>)\<rparr>)))"

text \<open>The position of the node a successful \<^verbatim>\<open>traversePath\<close> returns.\<close>

definition position :: "string \<Rightarrow> string list" where
  "position p = tl (split (CHR ''/'') (lower p))"

definition getRoute_in :: "Network \<Rightarrow> string \<Rightarrow> 'w Server \<Rightarrow> (error + addr) \<times> 'w Server" where
  "getRoute_in inst p s =
     (if p = ROOT_ROUTE_NAME then (Inr (node_value (tree inst)), s)
      else
        (case map_of (route_record inst) p of
           Some a \<Rightarrow> (Inr a, s)
         | None \<Rightarrow>
             (case traversePath_in inst p False s of
                (Inl e, s') \<Rightarrow> (Inl e, s')
              | (Inr node, s') \<Rightarrow>
                  (Inr (node_value node),
                   s'\<lparr>network_instance :=
                        map_option (\<lambda>i. i\<lparr>route_record := AList.update p (node_value node) (route_record i)\<rparr>)
                          (network_instance s')\<rparr>))))"

definition connect :: "eventType \<Rightarrow> 'w listener \<Rightarrow> addr \<Rightarrow> 'w Server \<Rightarrow> 'w Server" where
  "connect et l a s =
     s\<lparr>routes := (routes s)(a := (routes s a)
          \<lparr>connection := Some \<lparr>conn_eventType = et, conn_listener = l, Connected = True\<rparr>\<rparr>)\<rparr>"

definition OnInvoke_in ::
  "Network \<Rightarrow> eventType \<Rightarrow> string \<Rightarrow> 'w listener \<Rightarrow> 'w Server \<Rightarrow> (error + unit) \<times> 'w Server"
where
  "OnInvoke_in inst et p l s =
     (case getRoute_in inst p s of
        (Inl e, s') \<Rightarrow> (Inl e, s')
      | (Inr a, s') \<Rightarrow>
          if remoteType (routes s' a) \<noteq> Function then (Inl (NotAFunction p), s')
          else if connection (routes s' a) \<noteq> None then (Inl (AlreadyConnected p), s')
          else (Inr (), connect et l a s'))"

text \<open>
  \<^verbatim>\<open>Network.start\<close>. \<^verbatim>\<open>clearRouteLogs\<close> connects its listener to \<^verbatim>\<open>PlayerRemoving\<close>:
  \<open>cleanup_hooked\<close> records that.
\<close>

definition start :: "'w Server \<Rightarrow> (error + unit) \<times> 'w Server" where
  "start s =
     (if network_instance s \<noteq> None then (Inr (), s)
      else
        (case new_Route ''root'' ROOT_ROUTE_NAME ROOT_ROUTE_SECURE Event ROOT_ROUTE_MIDDLEWARE s of
           (rootRoute, s1) \<Rightarrow>
         case alloc_Middleware (new_Middleware 5 []) s1 of (m2, s2) \<Rightarrow>
         case new_Route ''root/'' ''network'' True Event (Some m2) s2 of (networkRoute, s3) \<Rightarrow>
         case alloc_Middleware (new_Middleware 5 []) s3 of (m4, s4) \<Rightarrow>
         case new_Route ''root/network'' ''get-tree'' True Function (Some m4) s4 of
           (getTreeRoute, s5) \<Rightarrow>
         (let networkNode = addChild s5 (TreeNode getTreeRoute []) (TreeNode networkRoute []);
              rootNode = addChild s5 networkNode (TreeNode rootRoute []);
              inst = \<lparr>tree = rootNode, route_record = [],
                      unEditableRoutes = [''root/network/get-tree'']\<rparr>;
              s6 = s5\<lparr>network_instance := Some inst, cleanup_hooked := True\<rparr>
          in OnInvoke_in inst Connect ''root/network/get-tree'' GetTreeListener s6)))"

text \<open>
  With no instance, \<^verbatim>\<open>this.instance ?? this.start()\<close> runs \<^verbatim>\<open>start\<close> and is its
  result, \<^verbatim>\<open>undefined\<close>; reading a field of it raises.
\<close>

definition traversePath :: "string \<Rightarrow> bool \<Rightarrow> 'w Server \<Rightarrow> (error + TreeNode) \<times> 'w Server" where
  "traversePath p createMissing s =
     (case network_instance s of
        None \<Rightarrow> (case start s of (Inl e, s') \<Rightarrow> (Inl e, s') | (Inr _, s') \<Rightarrow> (Inl IndexNil, s'))
      | Some inst \<Rightarrow> traversePath_in inst p createMissing s)"

definition getRoute :: "string \<Rightarrow> 'w Server \<Rightarrow> (error + addr) \<times> 'w Server" where
  "getRoute p s =
     (case network_instance s of
        None \<Rightarrow> (case start s of (Inl e, s') \<Rightarrow> (Inl e, s') | (Inr _, s') \<Rightarrow> (Inl IndexNil, s'))
      | Some inst \<Rightarrow> getRoute_in inst p s)"

subsection \<open>NewRoute and EditRoute\<close>

definition NewRoute :: "string \<Rightarrow> RouteParam \<Rightarrow> 'w Server \<Rightarrow> (error + unit) \<times> 'w Server" where
  "NewRoute p routeParam s =
     (case traversePath p True s of
        (Inl e, s') \<Rightarrow> (Inl e, s')
      | (Inr parent, s') \<Rightarrow>
          if getChild parent (endPoint routeParam) \<noteq> None
          then (Inl (DuplicateRoute (endPoint routeParam)), s')
          else
            (case new_Route p (endPoint routeParam) (rp_secure routeParam)
                    (rp_remoteType routeParam) (rp_middleware routeParam) s' of
               (a, s'') \<Rightarrow>
                 (Inr (),
                  s''\<lparr>network_instance :=
                        map_option (\<lambda>i. i\<lparr>tree := update_at (position p) (addChild s'' (TreeNode a [])) (tree i)\<rparr>)
                          (network_instance s'')\<rparr>)))"

definition EditRoute :: "string \<Rightarrow> RouteParam \<Rightarrow> 'w Server \<Rightarrow> (error + unit) \<times> 'w Server" where
  "EditRoute p routeParam s =
     (case network_instance s of
        None \<Rightarrow> (Inl NotInitialized, s)
      | Some inst \<Rightarrow>
          if key_in (KStr (lower p)) (array_table (unEditableRoutes inst))
          then (Inr (), s\<lparr>warned := warned s @ [CannotEdit p]\<rparr>)
          else
            (case traversePath p False s of
               (Inl e, s') \<Rightarrow> (Inl e, s')
             | (Inr parent, s') \<Rightarrow>
                 (case getChild parent (endPoint routeParam) of
                    None \<Rightarrow> (Inr (), s'\<lparr>warned := warned s' @ [DoesNotExist (endPoint routeParam) p]\<rparr>)
                  | Some old \<Rightarrow>
                      (case new_Route p (endPoint routeParam) (rp_secure routeParam)
                              (rp_remoteType routeParam) (rp_middleware routeParam) s' of
                         (a, s'') \<Rightarrow>
                           (Inr (),
                            s''\<lparr>network_instance :=
                                  map_option
                                    (\<lambda>i. i\<lparr>tree := update_at (position p)
                                                      (set_child (endPoint routeParam) (TreeNode a (children old)))
                                                      (tree i)\<rparr>)
                                    (network_instance s'')\<rparr>)))))"

subsection \<open>OnEvent, OnInvoke and the listeners\<close>

definition OnEvent ::
  "eventType \<Rightarrow> string \<Rightarrow> 'w callback \<Rightarrow> 'w Server \<Rightarrow> (error + unit) \<times> 'w Server"
where
  "OnEvent et p callback s =
     (case network_instance s of
        None \<Rightarrow> (Inl NotInitialized, s)
      | Some _ \<Rightarrow>
          (case start s of
             (Inl e, s0) \<Rightarrow> (Inl e, s0)
           | (Inr _, s0) \<Rightarrow>
               (case getRoute p s0 of
                  (Inl e, s') \<Rightarrow> (Inl e, s')
                | (Inr a, s') \<Rightarrow>
                    if remoteType (routes s' a) \<noteq> Event then (Inl (NotAnEvent p), s')
                    else if connection (routes s' a) \<noteq> None then (Inl (AlreadyConnected p), s')
                    else (Inr (), connect et (EventListener callback) a s'))))"

definition OnInvoke ::
  "eventType \<Rightarrow> string \<Rightarrow> 'w invoke_callback \<Rightarrow> 'w Server \<Rightarrow> (error + unit) \<times> 'w Server"
where
  "OnInvoke et p callback s =
     (case network_instance s of
        None \<Rightarrow> (Inl NotInitialized, s)
      | Some inst \<Rightarrow> OnInvoke_in inst et p (InvokeListener callback) s)"

text \<open>
  The middleware step that both listeners start with: \<^verbatim>\<open>route.middleware\<close> is read
  when the message arrives, and \<^verbatim>\<open>execute\<close> changes the Middleware object, may print a
  warning and lets the callbacks act on the world. The boolean says whether the
  listener goes on to the handler.
\<close>

definition run_middleware ::
  "addr \<Rightarrow> Player \<Rightarrow> real \<Rightarrow> lvalue list \<Rightarrow> 'w Server \<Rightarrow> bool \<times> 'w Server"
where
  "run_middleware a player currentTime args s =
     (case middleware (routes s a) of
        None \<Rightarrow> (True, s)
      | Some m \<Rightarrow>
          (case execute (mws s m) player currentTime args (world s) of
             (ok, m', ws, w') \<Rightarrow>
               (ok, s\<lparr>mws := (mws s)(m := m'), warned := warned s @ ws, world := w'\<rparr>)))"

text \<open>
  The closure \<^verbatim>\<open>OnEvent\<close> connects, for the Route at address \<open>a\<close>; \<open>currentTime\<close> is
  the reading of \<^verbatim>\<open>os.clock()\<close> when the message arrives. An error of the handler
  leaves the listener as an error.
\<close>

definition event_listener ::
  "addr \<Rightarrow> 'w callback \<Rightarrow> Player \<Rightarrow> lvalue list \<Rightarrow> real \<Rightarrow> 'w Server \<Rightarrow> (error + unit) \<times> 'w Server"
where
  "event_listener a callback player args currentTime s =
     (case run_middleware a player currentTime args s of
        (False, s') \<Rightarrow> (Inr (), s')
      | (True, s') \<Rightarrow>
          (case callback player args (world s') of
             Threw e w' \<Rightarrow> (Inl (Raised e), s'\<lparr>world := w'\<rparr>)
           | Done w' \<Rightarrow> (Inr (), s'\<lparr>world := w'\<rparr>)))"

text \<open>The handler \<^verbatim>\<open>start\<close> gives to \<^verbatim>\<open>get-tree\<close>: the flattened tree.\<close>

definition get_tree :: "'w Server \<Rightarrow> error + lvalue" where
  "get_tree s =
     (case network_instance s of
        None \<Rightarrow> Inl IndexNil
      | Some inst \<Rightarrow> Inr (Table (depthFirstSearch s (tree inst) [] [])))"

text \<open>
  The closure \<^verbatim>\<open>OnInvoke\<close> connects: after the middleware step the handler's result is
  sent to the calling player over the route's remote (both branches of the \<^verbatim>\<open>IsA\<close>
  test call \<^verbatim>\<open>FireClient\<close>). \<^verbatim>\<open>OnInvoke\<close> never connects an \<open>EventListener\<close>; its case
  is there because the function is total.
\<close>

definition invoke_listener ::
  "addr \<Rightarrow> 'w listener \<Rightarrow> Player \<Rightarrow> lvalue list \<Rightarrow> real \<Rightarrow> 'w Server \<Rightarrow> (error + unit) \<times> 'w Server"
where
  "invoke_listener a l player args currentTime s =
     (case run_middleware a player currentTime args s of
        (False, s') \<Rightarrow> (Inr (), s')
      | (True, s') \<Rightarrow>
          (case l of
             InvokeListener callback \<Rightarrow>
               (case callback player args (world s') of
                  ReplyThrew e w' \<Rightarrow> (Inl (Raised e), s'\<lparr>world := w'\<rparr>)
                | Reply result w' \<Rightarrow>
                    (Inr (), s'\<lparr>world := w',
                               sent := sent s' @ [(remote (routes s' a), UserId player, result)]\<rparr>))
           | GetTreeListener \<Rightarrow>
               (case get_tree s' of
                  Inl e \<Rightarrow> (Inl e, s')
                | Inr result \<Rightarrow>
                    (Inr (), s'\<lparr>sent := sent s' @ [(remote (routes s' a), UserId player, result)]\<rparr>))
           | EventListener callback \<Rightarrow>
               (case callback player args (world s') of
                  Threw e w' \<Rightarrow> (Inl (Raised e), s'\<lparr>world := w'\<rparr>)
                | Done w' \<Rightarrow> (Inr (), s'\<lparr>world := w'\<rparr>))))"

text \<open>
  A message from \<open>player\<close> arrives on the remote of the Route at address \<open>a\<close>: the
  connected listener runs; a \<^verbatim>\<open>Once\<close> connection is disconnected before its listener
  runs, and the field \<^verbatim>\<open>route.connection\<close> keeps the dead connection.
\<close>

definition OnServerEvent ::
  "addr \<Rightarrow> Player \<Rightarrow> lvalue list \<Rightarrow> real \<Rightarrow> 'w Server \<Rightarrow> (error + unit) \<times> 'w Server"
where
  "OnServerEvent a player args currentTime s =
     (case connection (routes s a) of
        None \<Rightarrow> (Inr (), s)
      | Some c \<Rightarrow>
          if \<not> Connected c then (Inr (), s)
          else
            (let s0 = (if conn_eventType c = Once
                       then s\<lparr>routes := (routes s)(a := (routes s a)\<lparr>connection := Some (c\<lparr>Connected := False\<rparr>)\<rparr>)\<rparr>
                       else s)
             in case conn_listener c of
                  EventListener callback \<Rightarrow> event_listener a callback player args currentTime s0
                | l \<Rightarrow> invoke_listener a l player args currentTime s0))"

subsection \<open>clearRouteLogs\<close>

text \<open>
  The listener \<^verbatim>\<open>clearRouteLogs\<close> connects to \<^verbatim>\<open>PlayerRemoving\<close>: for every Route in
  \<^verbatim>\<open>record\<close> that has a middleware, the leaving player's log entry is deleted.
\<close>

fun clear_logs :: "(string \<times> addr) list \<Rightarrow> int \<Rightarrow> 'w Server \<Rightarrow> 'w Server" where
  "clear_logs [] playerId s = s"
| "clear_logs ((key, a) # rest) playerId s =
     clear_logs rest playerId
       (case middleware (routes s a) of
          None \<Rightarrow> s
        | Some m \<Rightarrow> s\<lparr>mws := (mws s)(m := (mws s m)\<lparr>log := (log (mws s m))(playerId := None)\<rparr>)\<rparr>)"

definition PlayerRemoving :: "Player \<Rightarrow> 'w Server \<Rightarrow> 'w Server" where
  "PlayerRemoving player s =
     (if cleanup_hooked s
      then (case network_instance s of
              None \<Rightarrow> s
            | Some inst \<Rightarrow> clear_logs (route_record inst) (UserId player) s)
      else s)"

section \<open>The peer-side registry\<close>

text \<open>
  The class \<^verbatim>\<open>Network\<close> of \<^verbatim>\<open>ClientNetwork.ts\<close>; what it shares a name with on the host
  side carries the prefix \<open>client_\<close>. \<^verbatim>\<open>routingTable\<close> holds whatever the host replied
  to \<^verbatim>\<open>get-tree\<close>: the source casts the reply without looking at it.
\<close>

record ClientRouteLog =
  lastFireServer :: real

datatype 'w client_handler = CaptureResult | Callback "lvalue list \<Rightarrow> 'w \<Rightarrow> 'w outcome"

record 'w ClientConnection =
  cc_remote :: Remote
  cc_eventType :: eventType
  cc_handler :: "'w client_handler"
  cc_Connected :: bool

record ClientNetwork =
  routingTable :: lvalue
  client_log :: "string \<rightharpoonup> ClientRouteLog"
  connections :: "string \<rightharpoonup> nat"

text \<open>
  The peer's process: the static \<^verbatim>\<open>instance\<close>, the reading of \<^verbatim>\<open>os.clock()\<close>, the
  connections made so far (a connection is named by its index), the messages given to
  \<^verbatim>\<open>FireServer\<close>, and the remote \<^verbatim>\<open>WaitForChild\<close> finds for \<^verbatim>\<open>get-tree\<close>.

  \<open>future\<close> is what the environment does next, one entry per \<^verbatim>\<open>wait(0.1)\<close>: by how much
  the clock has advanced when the thread resumes, and the replies that arrived on the
  invoked remote meanwhile. The clock advances only during a wait, and no other thread
  of the peer calls the registry during a wait. Where the future ends the model does
  not say how the run goes on: the result is \<open>None\<close>.
\<close>

type_synonym schedule = "(real \<times> lvalue list) list"

record 'w Client =
  client_instance :: "ClientNetwork option"
  clock :: real
  conns :: "'w ClientConnection list"
  fired :: "(Remote \<times> lvalue list) list"
  get_tree_remote :: Remote
  future :: schedule

definition new_ClientNetwork :: "lvalue \<Rightarrow> ClientNetwork" where
  "new_ClientNetwork t = \<lparr>routingTable = t, client_log = Map.empty, connections = Map.empty\<rparr>"

text \<open>
  \<^verbatim>\<open>getRoute\<close> of the peer, for an instance that is set. Indexing a reply that is not a
  table raises.
\<close>

definition client_getRoute :: "ClientNetwork \<Rightarrow> string \<Rightarrow> error + SimpleRouteInfo" where
  "client_getRoute inst route =
     (case routingTable inst of
        Table t \<Rightarrow> (case map_of t route of None \<Rightarrow> Inl (RouteNotFound route) | Some routeInfo \<Rightarrow> Inr routeInfo)
      | _ \<Rightarrow> Inl IndexNil)"

text \<open>
  The cooldown test of \<^verbatim>\<open>FireServer\<close> and \<^verbatim>\<open>InvokeServer\<close>: the route has a cooldown
  that is not zero, the route was used before, and the last use is younger than the
  cooldown.
\<close>

definition cooldown_active :: "ClientNetwork \<Rightarrow> string \<Rightarrow> SimpleRouteInfo \<Rightarrow> real \<Rightarrow> bool" where
  "cooldown_active inst route routeInfo currentTime =
     (case sri_cooldown routeInfo of
        None \<Rightarrow> False
      | Some cd \<Rightarrow>
          cd \<noteq> 0 \<and>
          (case client_log inst route of
             None \<Rightarrow> False
           | Some entry \<Rightarrow> currentTime - lastFireServer entry < cd))"

definition FireServer :: "string \<Rightarrow> lvalue list \<Rightarrow> 'w Client \<Rightarrow> (error + unit) \<times> 'w Client" where
  "FireServer route args s =
     (case client_instance s of
        None \<Rightarrow> (Inl NotInitialized, s)
      | Some inst \<Rightarrow>
          (case client_getRoute inst route of
             Inl e \<Rightarrow> (Inl e, s)
           | Inr routeInfo \<Rightarrow>
               if sri_remoteType routeInfo = Function then (Inl (NotAnEvent route), s)
               else if cooldown_active inst route routeInfo (clock s) then (Inl (OnCooldown route), s)
               else
                 (Inr (),
                  s\<lparr>fired := fired s @ [(sri_remote routeInfo, args)],
                    client_instance :=
                      Some (inst\<lparr>client_log := (client_log inst)(route \<mapsto> \<lparr>lastFireServer = clock s\<rparr>)\<rparr>)\<rparr>)))"

definition client_OnEvent ::
  "eventType \<Rightarrow> string \<Rightarrow> (lvalue list \<Rightarrow> 'w \<Rightarrow> 'w outcome) \<Rightarrow> 'w Client \<Rightarrow> (error + unit) \<times> 'w Client"
where
  "client_OnEvent et route callback s =
     (case client_instance s of
        None \<Rightarrow> (Inl NotInitialized, s)
      | Some inst \<Rightarrow>
          (case client_getRoute inst route of
             Inl e \<Rightarrow> (Inl e, s)
           | Inr routeInfo \<Rightarrow>
               if sri_remoteType routeInfo = Function then (Inl (NotAnEvent route), s)
               else if connections inst route \<noteq> None then (Inl (AlreadyConnected route), s)
               else
                 (Inr (),
                  s\<lparr>conns := conns s @ [\<lparr>cc_remote = sri_remote routeInfo, cc_eventType = et,
                                          cc_handler = Callback callback, cc_Connected = True\<rparr>],
                    client_instance :=
                      Some (inst\<lparr>connections := (connections inst)(route \<mapsto> length (conns s))\<rparr>)\<rparr>)))"

text \<open>\<^verbatim>\<open>connection.Disconnect()\<close> for the connection with index \<open>c\<close>.\<close>

definition disconnect :: "nat \<Rightarrow> 'w Client \<Rightarrow> 'w Client" where
  "disconnect c s =
     (if c < length (conns s) then s\<lparr>conns := (conns s)[c := (conns s ! c)\<lparr>cc_Connected := False\<rparr>]\<rparr>
      else s)"

definition client_Disconnect :: "string \<Rightarrow> 'w Client \<Rightarrow> (error + unit) \<times> 'w Client" where
  "client_Disconnect route s =
     (case client_instance s of
        None \<Rightarrow> (Inl NotInitialized, s)
      | Some inst \<Rightarrow>
          (case connections inst route of
             None \<Rightarrow> (Inr (), s)
           | Some c \<Rightarrow>
               (Inr (),
                (disconnect c s)\<lparr>client_instance :=
                                   Some (inst\<lparr>connections := (connections inst)(route := None)\<rparr>)\<rparr>)))"

text \<open>
  The replies of one wait reach the \<^verbatim>\<open>Once\<close> listener of \<^verbatim>\<open>InvokeServer\<close>: while it
  is connected the first of them becomes \<^verbatim>\<open>result\<close> and the connection is spent; any
  further reply finds no listener.
\<close>

definition receive_once :: "lvalue list \<Rightarrow> lvalue \<Rightarrow> bool \<Rightarrow> lvalue \<times> bool" where
  "receive_once msgs result live =
     (case msgs of
        [] \<Rightarrow> (result, live)
      | serverResult # _ \<Rightarrow> if live then (serverResult, False) else (result, live))"

text \<open>
  The polling loop
  \<^verbatim>\<open>while (os.clock() - startTime < waitTime && result === undefined) wait(0.1)\<close>,
  run against the future. It returns the clock, \<^verbatim>\<open>result\<close>, whether the \<^verbatim>\<open>Once\<close>
  connection is still connected, and the future that is left.
\<close>

fun wait_loop ::
  "real \<Rightarrow> real \<Rightarrow> schedule \<Rightarrow> real \<Rightarrow> lvalue \<Rightarrow> bool \<Rightarrow> (real \<times> lvalue \<times> bool \<times> schedule) option"
where
  "wait_loop startTime waitTime [] now result live =
     (if now - startTime < waitTime \<and> result = Undefined then None
      else Some (now, result, live, []))"
| "wait_loop startTime waitTime ((dt, msgs) # rest) now result live =
     (if now - startTime < waitTime \<and> result = Undefined
      then wait_loop startTime waitTime rest (now + dt)
             (fst (receive_once msgs result live)) (snd (receive_once msgs result live))
      else Some (now, result, live, (dt, msgs) # rest))"

definition InvokeServer ::
  "string \<Rightarrow> real \<Rightarrow> lvalue list \<Rightarrow> 'w Client \<Rightarrow> ((error + lvalue) \<times> 'w Client) option"
where
  "InvokeServer route waitTime args s =
     (case client_instance s of
        None \<Rightarrow> Some (Inl NotInitialized, s)
      | Some inst \<Rightarrow>
          (case client_getRoute inst route of
             Inl e \<Rightarrow> Some (Inl e, s)
           | Inr routeInfo \<Rightarrow>
               if sri_remoteType routeInfo \<noteq> Function then Some (Inl (NotAFunction route), s)
               else if cooldown_active inst route routeInfo (clock s) then Some (Inl (OnCooldown route), s)
               else
                 (let conn = length (conns s);
                      s1 = s\<lparr>conns := conns s @ [\<lparr>cc_remote = sri_remote routeInfo, cc_eventType = Once,
                                                   cc_handler = CaptureResult, cc_Connected = True\<rparr>],
                             fired := fired s @ [(sri_remote routeInfo, args)],
                             client_instance :=
                               Some (inst\<lparr>client_log := (client_log inst)(route \<mapsto> \<lparr>lastFireServer = clock s\<rparr>)\<rparr>)\<rparr>
                  in case wait_loop (clock s1) waitTime (future s1) (clock s1) Undefined True of
                       None \<Rightarrow> None
                     | Some (now, result, live, rest) \<Rightarrow>
                         Some (Inr result,
                               disconnect conn
                                 (s1\<lparr>clock := now, future := rest,
                                     conns := (conns s1)[conn := (conns s1 ! conn)\<lparr>cc_Connected := live\<rparr>]\<rparr>)))))"

text \<open>\<^verbatim>\<open>Network.start\<close> of the peer.\<close>

definition client_start :: "'w Client \<Rightarrow> ((error + unit) \<times> 'w Client) option" where
  "client_start s =
     (if client_instance s \<noteq> None then Some (Inr (), s)
      else
        (let initRoute = get_tree_remote s;
             s1 = s\<lparr>client_instance := Some (new_ClientNetwork (Table
                       [(''root/network/get-tree'',
                         \<lparr>sri_remote = initRoute, sri_secure = True, sri_remoteType = Function,
                          sri_cooldown = Some 5\<rparr>)]))\<rparr>
         in case InvokeServer ''root/network/get-tree'' 5 [] s1 of
              None \<Rightarrow> None
            | Some (Inl e, s2) \<Rightarrow> Some (Inl e, s2)
            | Some (Inr simplifiedTree, s2) \<Rightarrow>
                if simplifiedTree = Undefined
                then Some (Inl BootstrapFailed, s2\<lparr>client_instance := None\<rparr>)
                else Some (Inr (), s2\<lparr>client_instance := Some (new_ClientNetwork simplifiedTree)\<rparr>)))"

text \<open>
  Two readings of a future: the replies that arrive in the waits the polling loop can
  begin while less than \<open>waitTime\<close> has passed, and the time all its waits take together.
\<close>

fun arrivals :: "real \<Rightarrow> schedule \<Rightarrow> lvalue list" where
  "arrivals remaining [] = []"
| "arrivals remaining ((dt, msgs) # rest) =
     (if 0 < remaining then msgs @ arrivals (remaining - dt) rest else [])"

definition duration :: "schedule \<Rightarrow> real" where
  "duration sched = sum_list (map fst sched)"

text \<open>The same future with every reply removed.\<close>

definition mute :: "schedule \<Rightarrow> schedule" where
  "mute sched = map (\<lambda>(dt, msgs). (dt, [])) sched"

text \<open>
  The \<^verbatim>\<open>Once\<close> listener captures at most the first reply that arrives during the call:
  \<open>no_defined_reply\<close> says that there is none or that it is \<^verbatim>\<open>undefined\<close>.
\<close>

definition no_defined_reply :: "real \<Rightarrow> schedule \<Rightarrow> bool" where
  "no_defined_reply waitTime sched =
     (case arrivals waitTime sched of [] \<Rightarrow> True | serverResult # _ \<Rightarrow> serverResult = Undefined)"

text \<open>
  The connection a call of \<^verbatim>\<open>InvokeServer\<close> made in state \<open>s\<close> is the next index of
  \<open>conns s\<close>; \<open>detached s s'\<close> says that in \<open>s'\<close> it exists, is the \<^verbatim>\<open>Once\<close> connection
  and is disconnected.
\<close>

definition detached :: "'w Client \<Rightarrow> 'w Client \<Rightarrow> bool" where
  "detached s s' =
     (length (conns s') = Suc (length (conns s)) \<and>
      cc_eventType (conns s' ! length (conns s)) = Once \<and>
      \<not> cc_Connected (conns s' ! length (conns s)))"

text \<open>
  A peer for the examples: started, with the one route \<^verbatim>\<open>root/additions\<close> of the demo
  in its table (a function route with cooldown 1), the clock at 0 and five waits of 0.1
  ahead during which nothing arrives.
\<close>

definition demo_peer :: "nat Client" where
  "demo_peer =
     \<lparr>client_instance = Some (new_ClientNetwork (Table
          [(''root/additions'',
            \<lparr>sri_remote = RemoteEvent 3, sri_secure = True, sri_remoteType = Function,
             sri_cooldown = Some 1\<rparr>)])),
      clock = 0, conns = [], fired = [], get_tree_remote = RemoteEvent 2,
      future = [(0.1, []), (0.1, []), (0.1, []), (0.1, []), (0.1, [])]\<rparr>"

text \<open>
  The demo peer after a first \<^verbatim>\<open>InvokeServer("root/additions", 0.2)\<close> that timed out:
  the request was sent at clock 0, the clock is at 0.2, three waits are left.
\<close>

definition demo_peer_called :: "nat Client" where
  "demo_peer_called =
     \<lparr>client_instance = Some
        \<lparr>routingTable = Table
           [(''root/additions'',
             \<lparr>sri_remote = RemoteEvent 3, sri_secure = True, sri_remoteType = Function,
              sri_cooldown = Some 1\<rparr>)],
         client_log = [''root/additions'' \<mapsto> \<lparr>lastFireServer = 0\<rparr>],
         connections = Map.empty\<rparr>,
      clock = 0.2,
      conns = [\<lparr>cc_remote = RemoteEvent 3, cc_eventType = Once, cc_handler = CaptureResult,
               cc_Connected = False\<rparr>],
      fired = [(RemoteEvent 3, [])], get_tree_remote = RemoteEvent 2,
      future = [(0.1, []), (0.1, []), (0.1, [])]\<rparr>"

section \<open>Notions for the statements about the tree\<close>

text \<open>The number of Routes (nodes) of a tree.\<close>

fun count_routes :: "TreeNode \<Rightarrow> nat" and count_children :: "(string \<times> TreeNode) list \<Rightarrow> nat" where
  "count_routes (TreeNode a cs) = Suc (count_children cs)"
| "count_children [] = 0"
| "count_children ((key, child) # rest) = count_routes child + count_children rest"

text \<open>
  The nodes of a tree in the order of \<open>depthFirstSearch\<close>, each with its position and
  the address of its Route.
\<close>

fun located :: "TreeNode \<Rightarrow> (string list \<times> addr) list"
  and located_children :: "(string \<times> TreeNode) list \<Rightarrow> (string list \<times> addr) list"
where
  "located (TreeNode a cs) = ([], a) # located_children cs"
| "located_children [] = []"
| "located_children ((key, child) # rest) =
     map (\<lambda>(pos, a). (key # pos, a)) (located child) @ located_children rest"

text \<open>
  A tree is well named when every child is filed under the name of its Route (as
  \<^verbatim>\<open>addChild\<close> and \<^verbatim>\<open>EditRoute\<close> do), the keys of a dictionary are distinct, and every
  name below the root is one lower-case path segment: it has no \<^verbatim>\<open>/\<close> and \<^verbatim>\<open>lower\<close>
  leaves it as it is. The names \<^verbatim>\<open>traversePath\<close> creates are of that kind; an
  \<^verbatim>\<open>endPoint\<close> given to \<^verbatim>\<open>NewRoute\<close> is filed as it is spelled.
\<close>

fun well_named :: "'w Server \<Rightarrow> TreeNode \<Rightarrow> bool"
  and well_named_children :: "'w Server \<Rightarrow> (string \<times> TreeNode) list \<Rightarrow> bool"
where
  "well_named s (TreeNode a cs) = (distinct (map fst cs) \<and> well_named_children s cs)"
| "well_named_children s [] = True"
| "well_named_children s ((key, child) # rest) =
     (key = name (routes s (node_value child)) \<and> CHR ''/'' \<notin> set key \<and> lower key = key \<and>
      well_named s child \<and> well_named_children s rest)"

text \<open>The full address of the node at position \<open>pos\<close> under a root with full address \<open>fp\<close>.\<close>

definition address :: "string \<Rightarrow> string list \<Rightarrow> string" where
  "address fp pos = fp @ concat (map (\<lambda>part. ''/'' @ part) pos)"

text \<open>The entries \<open>depthFirstSearch\<close> writes, in its order, without the table.\<close>

fun entries :: "'w Server \<Rightarrow> TreeNode \<Rightarrow> string \<Rightarrow> (string \<times> SimpleRouteInfo) list"
  and entries_children ::
    "'w Server \<Rightarrow> (string \<times> TreeNode) list \<Rightarrow> string \<Rightarrow> (string \<times> SimpleRouteInfo) list"
where
  "entries s (TreeNode a cs) p =
     (full_path p (name (routes s a)), route_info s a)
       # entries_children s cs (full_path p (name (routes s a)))"
| "entries_children s [] fullPath = []"
| "entries_children s ((key, childNode) # rest) fullPath =
     entries s childNode fullPath @ entries_children s rest fullPath"

text \<open>
  What \<^verbatim>\<open>traversePath\<close> without \<^verbatim>\<open>createMissing\<close> computes from the parts of a path.
\<close>

definition lookup_root :: "string list \<Rightarrow> TreeNode \<Rightarrow> error + TreeNode" where
  "lookup_root parts rootNode =
     (case parts of
        [] \<Rightarrow> Inl InvalidPath
      | first # pathParts \<Rightarrow>
          if first \<noteq> ROOT_ROUTE_NAME then Inl InvalidPath else lookup_path pathParts rootNode)"

text \<open>
  A registry for the examples: started, then \<^verbatim>\<open>NewRoute("root", {endPoint: "a", ...})\<close>
  and \<^verbatim>\<open>NewRoute("root/a", {endPoint: "b", ...})\<close>, both event routes without
  middleware. The Routes of \<^verbatim>\<open>root/a\<close> and \<^verbatim>\<open>root/a/b\<close> are at the addresses 3 and 4.
\<close>

definition demo_registry :: "nat Server" where
  "demo_registry =
     snd (NewRoute ''root/a''
            \<lparr>endPoint = ''b'', rp_secure = True, rp_remoteType = Event, rp_middleware = None\<rparr>
            (snd (NewRoute ''root''
                    \<lparr>endPoint = ''a'', rp_secure = True, rp_remoteType = Event, rp_middleware = None\<rparr>
                    (snd (start (loaded 0))))))"

section \<open>Theorems\<close>

subsection \<open>Middleware\<close>

lemma update_and_run_log:
  "update_and_run m p t args w = (ok, m', ws, w') \<Longrightarrow>
     m' = m\<lparr>log := (log m)(UserId p \<mapsto> \<lparr>lastUse = t\<rparr>)\<rparr> \<and>
     ok = all_pass (middlewares m) p args w \<and>
     w' = world_after (middlewares m) p args w"
  by (auto simp: update_and_run_def all_pass_def world_after_def Let_def split: outcome.splits)

lemma execute_on_cooldown:
  "on_cooldown m p t \<Longrightarrow> execute m p t args w = (False, m, [], w)"
  by (auto simp: on_cooldown_def execute_def Let_def split: option.splits)

lemma execute_off_cooldown:
  assumes "\<not> on_cooldown m p t" and "execute m p t args w = (ok, m', ws, w')"
  shows "m' = m\<lparr>log := (log m)(UserId p \<mapsto> \<lparr>lastUse = t\<rparr>)\<rparr>"
    and "ok = all_pass (middlewares m) p args w"
    and "w' = world_after (middlewares m) p args w"
proof -
  show "m' = m\<lparr>log := (log m)(UserId p \<mapsto> \<lparr>lastUse = t\<rparr>)\<rparr>"
  proof (cases "log m (UserId p)")
    case None
    with assms(2) show ?thesis
      by (auto simp: execute_def Let_def dest!: update_and_run_log)
  next
    case (Some entry)
    with assms show ?thesis
      by (auto simp: execute_def on_cooldown_def Let_def dest!: update_and_run_log)
  qed
  show "ok = all_pass (middlewares m) p args w"
    using assms
    by (auto simp: execute_def on_cooldown_def Let_def split: option.splits if_splits
        dest!: update_and_run_log)
  show "w' = world_after (middlewares m) p args w"
    using assms
    by (auto simp: execute_def on_cooldown_def Let_def split: option.splits if_splits
        dest!: update_and_run_log)
qed



text \<open>
  Claim C9. When a call passes the cooldown check and one of its callbacks raises,
  \<^verbatim>\<open>execute\<close> returns false, yet the peer's last use is already the time \<open>t\<close> of that
  call; the same peer's next call at any \<open>t'\<close> with \<open>t' - t < c\<close> returns false on the
  cooldown check, with the Middleware and the world unchanged (no callback runs).
\<close>

theorem execute_raise_consumes_cooldown:
  assumes "\<not> on_cooldown m p t"
    and "run_middlewares (middlewares m) p args w = Threw e w1"
    and "execute m p t args w = (ok, m1, ws, w')"
  shows "\<not> ok \<and> log m1 (UserId p) = Some \<lparr>lastUse = t\<rparr> \<and> w' = w1 \<and>
         (\<forall>t' args' w2. t' - t < clientSideCooldown m \<longrightarrow>
            execute m1 p t' args' w2 = (False, m1, [], w2))"
proof -
  from execute_off_cooldown[OF assms(1,3)] assms(2)
  have m1: "m1 = m\<lparr>log := (log m)(UserId p \<mapsto> \<lparr>lastUse = t\<rparr>)\<rparr>" and ok: "\<not> ok" and w': "w' = w1"
    by (simp_all add: all_pass_def world_after_def)
  have "on_cooldown m1 p t'" if "t' - t < clientSideCooldown m" for t'
    using that by (simp add: m1 on_cooldown_def)
  then have "\<forall>t' args' w2. t' - t < clientSideCooldown m \<longrightarrow>
      execute m1 p t' args' w2 = (False, m1, [], w2)"
    by (simp add: execute_on_cooldown)
  with m1 ok w' show ?thesis by simp
qed

text \<open>
  An instance of claim C9: cooldown 5, one callback that always raises. The call at
  \<open>t = 0\<close> is rejected by the callback; the call at \<open>t = 3\<close> is rejected by the cooldown.
\<close>

theorem execute_raise_consumes_cooldown_witness:
  "fst (execute (new_Middleware 5 [\<lambda>_ _ (n::nat). Threw ''number!!!'' (Suc n)])
         \<lparr>UserId = 7, Name = ''peer''\<rparr> 0 [] 0) = False \<and>
   execute ((new_Middleware 5 [\<lambda>_ _ (n::nat). Threw ''number!!!'' (Suc n)])\<lparr>log := [7 \<mapsto> \<lparr>lastUse = 0\<rparr>]\<rparr>)
       \<lparr>UserId = 7, Name = ''peer''\<rparr> 3 [] 1
     = (False, (new_Middleware 5 [\<lambda>_ _ (n::nat). Threw ''number!!!'' (Suc n)])\<lparr>log := [7 \<mapsto> \<lparr>lastUse = 0\<rparr>]\<rparr>, [], 1)"
proof -
  let ?m0 = "new_Middleware 5 [\<lambda>_ _ (n::nat). Threw ''number!!!'' (Suc n)]"
  let ?m1 = "?m0\<lparr>log := [7 \<mapsto> \<lparr>lastUse = 0\<rparr>]\<rparr>"
  let ?p = "\<lparr>UserId = 7, Name = ''peer''\<rparr>"
  have off: "\<not> on_cooldown ?m0 ?p 0" by (simp add: on_cooldown_def new_Middleware_def)
  have thr: "run_middlewares (middlewares ?m0) ?p [] 0 = Threw ''number!!!'' 1"
    by (simp add: new_Middleware_def)
  have ex: "execute ?m0 ?p 0 [] 0 = (False, ?m1, [MiddlewareError ''number!!!''], 1)"
    by (simp add: execute_def update_and_run_def new_Middleware_def)
  from execute_raise_consumes_cooldown[OF off thr ex]
  have "\<forall>t' args' w2. t' - 0 < clientSideCooldown ?m0 \<longrightarrow>
          execute ?m1 ?p t' args' w2 = (False, ?m1, [], w2)"
    by simp
  then have "(3::real) - 0 < clientSideCooldown ?m0 \<longrightarrow> execute ?m1 ?p 3 [] 1 = (False, ?m1, [], 1)"
    by blast
  then have "execute ?m1 ?p 3 [] 1 = (False, ?m1, [], 1)"
    by (simp add: new_Middleware_def)
  with ex show ?thesis by simp
qed

subsection \<open>The host-side listeners\<close>

lemmas registry_defs =
  start_def loaded_def new_Route_def alloc_Middleware_def addChild_def set_child_def
  OnInvoke_in_def getRoute_in_def getRoute_def traversePath_in_def traversePath_def connect_def
  getChild_def position_def ROOT_ROUTE_NAME_def ROOT_ROUTE_CD_def ROOT_ROUTE_SECURE_def
  ROOT_ROUTE_MIDDLEWARE_def lower_def lower_char_def new_Middleware_def

lemma run_middleware_rejects:
  assumes "middleware (routes s a) = Some m"
    and "on_cooldown (mws s m) player t \<or> \<not> all_pass (middlewares (mws s m)) player args (world s)"
  shows "run_middleware a player t args s =
           (False, s\<lparr>mws := (mws s)(m := fst (snd (execute (mws s m) player t args (world s)))),
                     warned := warned s @ fst (snd (snd (execute (mws s m) player t args (world s)))),
                     world := snd (snd (snd (execute (mws s m) player t args (world s))))\<rparr>)"
proof -
  obtain ok m' ws w' where ex: "execute (mws s m) player t args (world s) = (ok, m', ws, w')"
    by (cases "execute (mws s m) player t args (world s)") auto
  have "\<not> ok"
  proof (cases "on_cooldown (mws s m) player t")
    case True
    from execute_on_cooldown[OF True, of args "world s"] ex show ?thesis by simp
  next
    case False
    with assms(2) execute_off_cooldown(2)[OF False ex] show ?thesis by simp
  qed
  with ex assms(1) show ?thesis by (simp add: run_middleware_def)
qed

text \<open>
  Claim C5. For a Route with a middleware and any inbound message: when the cooldown
  check rejects the call or a callback of the chain raises, \<^verbatim>\<open>execute\<close> returns false,
  and the listener of \<^verbatim>\<open>OnEvent\<close> as well as the listener of \<^verbatim>\<open>OnInvoke\<close> returns
  normally, with no error, in the state \<^verbatim>\<open>execute\<close> left. That state does not depend
  on the handler: the handler is not called, and \<^verbatim>\<open>OnInvoke\<close> sends no reply.
\<close>

theorem rejected_call_is_silent:
  assumes "middleware (routes s a) = Some m"
    and "on_cooldown (mws s m) player t \<or> \<not> all_pass (middlewares (mws s m)) player args (world s)"
  shows "fst (execute (mws s m) player t args (world s)) = False \<and>
         event_listener a callback player args t s =
           (Inr (), s\<lparr>mws := (mws s)(m := fst (snd (execute (mws s m) player t args (world s)))),
                      warned := warned s @ fst (snd (snd (execute (mws s m) player t args (world s)))),
                      world := snd (snd (snd (execute (mws s m) player t args (world s))))\<rparr>) \<and>
         invoke_listener a l player args t s =
           (Inr (), s\<lparr>mws := (mws s)(m := fst (snd (execute (mws s m) player t args (world s)))),
                      warned := warned s @ fst (snd (snd (execute (mws s m) player t args (world s)))),
                      world := snd (snd (snd (execute (mws s m) player t args (world s))))\<rparr>) \<and>
         sent (snd (invoke_listener a l player args t s)) = sent s"
proof -
  note rej = run_middleware_rejects[OF assms]
  have "fst (execute (mws s m) player t args (world s)) = False"
    using rej assms(1) by (simp add: run_middleware_def split: prod.splits)
  moreover have "event_listener a callback player args t s =
           (Inr (), s\<lparr>mws := (mws s)(m := fst (snd (execute (mws s m) player t args (world s)))),
                      warned := warned s @ fst (snd (snd (execute (mws s m) player t args (world s)))),
                      world := snd (snd (snd (execute (mws s m) player t args (world s))))\<rparr>)"
    by (simp add: event_listener_def rej)
  moreover have "invoke_listener a l player args t s =
           (Inr (), s\<lparr>mws := (mws s)(m := fst (snd (execute (mws s m) player t args (world s)))),
                      warned := warned s @ fst (snd (snd (execute (mws s m) player t args (world s)))),
                      world := snd (snd (snd (execute (mws s m) player t args (world s))))\<rparr>)"
    by (simp add: invoke_listener_def rej)
  ultimately show ?thesis by simp
qed

text \<open>
  An instance of claim C5 on the started registry: the root Route has the middleware
  with cooldown 10. A peer's second message, 3 seconds after its accepted first one, is
  dropped: the listener returns normally and leaves the state as it was, although the
  handler connected here would raise if it were called.
\<close>

theorem rejected_call_is_silent_witness:
  "event_listener 0 (\<lambda>_ _ w. Threw ''handler'' w) \<lparr>UserId = 7, Name = ''peer''\<rparr> [] 3
     (snd (event_listener 0 (\<lambda>_ _ w. Done w) \<lparr>UserId = 7, Name = ''peer''\<rparr> [] 0 (snd (start (loaded (0::nat))))))
   = (Inr (), snd (event_listener 0 (\<lambda>_ _ w. Done w) \<lparr>UserId = 7, Name = ''peer''\<rparr> [] 0
                     (snd (start (loaded (0::nat))))))"
proof -
  let ?p = "\<lparr>UserId = 7, Name = ''peer''\<rparr>"
  let ?s1 = "snd (event_listener 0 (\<lambda>_ _ w. Done w) ?p [] 0 (snd (start (loaded (0::nat)))))"
  have mw: "middleware (routes ?s1 0) = Some 0"
    by (simp add: event_listener_def run_middleware_def execute_def update_and_run_def
        registry_defs Let_def)
  have m0: "mws ?s1 0 = \<lparr>log = [7 \<mapsto> \<lparr>lastUse = 0\<rparr>], clientSideCooldown = 10, middlewares = []\<rparr>"
    by (simp add: event_listener_def run_middleware_def execute_def update_and_run_def
        registry_defs Let_def)
  have cd: "on_cooldown (mws ?s1 0) ?p 3 \<or> \<not> all_pass (middlewares (mws ?s1 0)) ?p [] (world ?s1)"
    by (simp add: m0 on_cooldown_def)
  have ex: "execute (mws ?s1 0) ?p 3 [] (world ?s1) = (False, mws ?s1 0, [], world ?s1)"
    by (simp add: m0 execute_def)
  from rejected_call_is_silent[OF mw cd, of "\<lambda>_ _ w. Threw ''handler'' w" GetTreeListener]
  show ?thesis by (simp add: ex)
qed

subsection \<open>The uneditable routes and the log cleanup, evaluated\<close>

text \<open>
  Claim C3 at a concrete input. After \<^verbatim>\<open>start\<close>,
  \<^verbatim>\<open>EditRoute("root/network", {endPoint: "get-tree", secure: true, remoteType: "event", middleware: false})\<close>
  targets the address \<^verbatim>\<open>root/network/get-tree\<close> of the uneditable list. The test
  \<^verbatim>\<open>path.lower() in unEditableRoutes\<close> asks whether the parent path is a key of the
  array and is false; no warning is printed and the node at the address now carries a
  new Route (address 3 instead of 2) of type event, without middleware and listener.
\<close>

theorem EditRoute_replaces_uneditable_route:
  "fst (traversePath ''root/network/get-tree'' False (snd (start (loaded (0::nat))))) = Inr (TreeNode 2 []) \<and>
   \<not> key_in (KStr (lower ''root/network'')) (array_table [''root/network/get-tree'']) \<and>
   \<not> key_in (KStr (lower ''root/network/get-tree'')) (array_table [''root/network/get-tree'']) \<and>
   fst (EditRoute ''root/network''
          \<lparr>endPoint = ''get-tree'', rp_secure = True, rp_remoteType = Event, rp_middleware = None\<rparr>
          (snd (start (loaded (0::nat))))) = Inr () \<and>
   warned (snd (EditRoute ''root/network''
          \<lparr>endPoint = ''get-tree'', rp_secure = True, rp_remoteType = Event, rp_middleware = None\<rparr>
          (snd (start (loaded (0::nat)))))) = [] \<and>
   fst (traversePath ''root/network/get-tree'' False
         (snd (EditRoute ''root/network''
          \<lparr>endPoint = ''get-tree'', rp_secure = True, rp_remoteType = Event, rp_middleware = None\<rparr>
          (snd (start (loaded (0::nat))))))) = Inr (TreeNode 3 []) \<and>
   routes (snd (EditRoute ''root/network''
          \<lparr>endPoint = ''get-tree'', rp_secure = True, rp_remoteType = Event, rp_middleware = None\<rparr>
          (snd (start (loaded (0::nat)))))) 3
     = \<lparr>path = ''root/network'', name = ''get-tree'', secure = True, remoteType = Event,
        middleware = None, remote = RemoteEvent 3, connection = None\<rparr>"
  by (simp add: EditRoute_def key_in_def array_table_def registry_defs Let_def)

text \<open>
  Claim C4 at a concrete input. After \<^verbatim>\<open>start\<close> the owner connects a handler to the
  root Route with \<^verbatim>\<open>OnEvent("Connect", "root", handler)\<close>; \<^verbatim>\<open>getRoute("root")\<close> returns
  the root Route without caching it in \<^verbatim>\<open>record\<close>. Player 7 sends one message at time 0
  and leaves. The listener of \<^verbatim>\<open>clearRouteLogs\<close> walks \<^verbatim>\<open>record\<close>, which holds only
  \<^verbatim>\<open>root/network/get-tree\<close>, so the log of the root Route's middleware (address 0),
  a Route of the tree, still maps player 7.
\<close>

theorem PlayerRemoving_keeps_root_log:
  "fst (OnEvent Connect ''root'' (\<lambda>_ _ w. Done w) (snd (start (loaded (0::nat))))) = Inr () \<and>
   map_option (node_value \<circ> tree) (network_instance
     (PlayerRemoving \<lparr>UserId = 7, Name = ''peer''\<rparr>
       (snd (OnServerEvent 0 \<lparr>UserId = 7, Name = ''peer''\<rparr> [] 0
         (snd (OnEvent Connect ''root'' (\<lambda>_ _ w. Done w) (snd (start (loaded (0::nat))))))))))
     = Some 0 \<and>
   middleware (routes
     (PlayerRemoving \<lparr>UserId = 7, Name = ''peer''\<rparr>
       (snd (OnServerEvent 0 \<lparr>UserId = 7, Name = ''peer''\<rparr> [] 0
         (snd (OnEvent Connect ''root'' (\<lambda>_ _ w. Done w) (snd (start (loaded (0::nat)))))))))
     0) = Some 0 \<and>
   log (mws
     (PlayerRemoving \<lparr>UserId = 7, Name = ''peer''\<rparr>
       (snd (OnServerEvent 0 \<lparr>UserId = 7, Name = ''peer''\<rparr> [] 0
         (snd (OnEvent Connect ''root'' (\<lambda>_ _ w. Done w) (snd (start (loaded (0::nat)))))))))
     0) 7 = Some \<lparr>lastUse = 0\<rparr>"
  by (simp add: PlayerRemoving_def OnServerEvent_def OnEvent_def event_listener_def
      run_middleware_def execute_def update_and_run_def registry_defs Let_def)

subsection \<open>Traversal without creation is a lookup\<close>

lemma key_in_array_table_string: "\<not> key_in (KStr k) (array_table xs)"
  by (simp add: key_in_def array_table_def)

lemma set_child_same:
  "getChild node part = Some child \<Longrightarrow> set_child part child node = node"
  by (cases node) (simp add: set_child_def getChild_def update_triv)

lemma getChild_set_child:
  "getChild (set_child key child node) part = (if part = key then Some child else getChild node part)"
  by (simp add: set_child_def getChild_def update_conv')

lemma traverse_loop_lookup:
  "traverse_loop parts False cur node s =
     (case lookup_path parts node of Inl e \<Rightarrow> (Inl e, s) | Inr found \<Rightarrow> (Inr (found, node), s))"
proof (induction parts arbitrary: cur node)
  case Nil
  show ?case by simp
next
  case (Cons part rest)
  show ?case
  proof (cases "getChild node part")
    case None
    then show ?thesis by simp
  next
    case (Some child)
    then show ?thesis
      by (simp add: Cons.IH set_child_same split: sum.splits)
  qed
qed

lemma traversePath_lookup:
  assumes "network_instance s = Some inst"
  shows "traversePath p False s = (lookup_root (split (CHR ''/'') (lower p)) (tree inst), s)"
proof -
  have same: "s\<lparr>network_instance := Some (inst\<lparr>tree := tree inst\<rparr>)\<rparr> = s"
    using assms by simp
  show ?thesis
    using assms same
    by (auto simp: traversePath_def traversePath_in_def lookup_root_def traverse_loop_lookup
        ROOT_ROUTE_NAME_def split: list.splits sum.splits)
qed

subsection \<open>EditRoute keeps the descendants\<close>

lemma lookup_path_append:
  "lookup_path (xs @ ys) node =
     (case lookup_path xs node of Inl e \<Rightarrow> Inl e | Inr n \<Rightarrow> lookup_path ys n)"
  by (induction xs arbitrary: node) (auto split: option.splits)

lemma lookup_path_children:
  "rest \<noteq> [] \<Longrightarrow> children n = children n' \<Longrightarrow> lookup_path rest n = lookup_path rest n'"
  by (cases rest) (simp_all add: getChild_def)

lemma lookup_path_update_at:
  assumes "lookup_path loc rootNode = Inr parent"
  shows "lookup_path (loc @ ys) (update_at loc f rootNode) = lookup_path ys (f parent)"
  using assms
proof (induction loc arbitrary: rootNode)
  case Nil
  then show ?case by simp
next
  case (Cons part loc)
  then show ?case
    by (auto simp: getChild_set_child split: option.splits)
qed

text \<open>
  Claim C6. Let \<^verbatim>\<open>EditRoute(p, routeParam)\<close> find the parent at \<open>p\<close> and under it a child
  \<open>old\<close> named \<^verbatim>\<open>endPoint\<close>. Then the call succeeds; the Route store gains one new Route
  built from \<open>routeParam\<close> and is otherwise unchanged; the path \<open>p/endPoint\<close> now leads
  to a node with the new Route and the children of \<open>old\<close>; and every longer path through
  \<open>p/endPoint\<close> is traversed with the result it had before, node or error.
\<close>

theorem EditRoute_keeps_descendants:
  assumes inst: "network_instance s = Some inst"
    and par: "fst (traversePath p False s) = Inr parent"
    and old: "getChild parent (endPoint rp) = Some old"
  shows "\<exists>s'. EditRoute p rp s = (Inr (), s') \<and>
           routes s' = (routes s)(next_route s :=
             \<lparr>path = p, name = endPoint rp, secure = rp_secure rp, remoteType = rp_remoteType rp,
              middleware = rp_middleware rp,
              remote = (if rp_secure rp then RemoteEvent (next_route s)
                        else UnreliableRemoteEvent (next_route s)),
              connection = None\<rparr>) \<and>
           (\<forall>q. split (CHR ''/'') (lower q) = split (CHR ''/'') (lower p) @ [endPoint rp] \<longrightarrow>
                fst (traversePath q False s') = Inr (TreeNode (next_route s) (children old))) \<and>
           (\<forall>q rest. rest \<noteq> [] \<and>
                split (CHR ''/'') (lower q) = split (CHR ''/'') (lower p) @ endPoint rp # rest \<longrightarrow>
                fst (traversePath q False s') = fst (traversePath q False s))"
proof -
  let ?ep = "endPoint rp"
  let ?a = "next_route s"
  let ?new = "TreeNode ?a (children old)"
  from par have root: "lookup_root (split (CHR ''/'') (lower p)) (tree inst) = Inr parent"
    by (simp add: traversePath_lookup[OF inst])
  then obtain loc where parts: "split (CHR ''/'') (lower p) = ROOT_ROUTE_NAME # loc"
    and loc: "lookup_path loc (tree inst) = Inr parent"
    by (auto simp: lookup_root_def split: list.splits if_splits)
  have pos: "position p = loc" by (simp add: position_def parts)
  let ?tree' = "update_at loc (set_child ?ep ?new) (tree inst)"
  let ?inst' = "inst\<lparr>tree := ?tree'\<rparr>"
  let ?s' = "s\<lparr>routes := (routes s)(?a :=
               \<lparr>path = p, name = ?ep, secure = rp_secure rp, remoteType = rp_remoteType rp,
                middleware = rp_middleware rp,
                remote = (if rp_secure rp then RemoteEvent ?a else UnreliableRemoteEvent ?a),
                connection = None\<rparr>),
             next_route := Suc ?a, network_instance := Some ?inst'\<rparr>"
  have tp: "traversePath p False s = (Inr parent, s)"
    using root by (simp add: traversePath_lookup[OF inst])
  have edit: "EditRoute p rp s = (Inr (), ?s')"
    by (simp add: EditRoute_def inst key_in_array_table_string tp old new_Route_def Let_def pos)
  have inst': "network_instance ?s' = Some ?inst'" by simp
  have target: "fst (traversePath q False ?s') = Inr ?new"
    if "split (CHR ''/'') (lower q) = split (CHR ''/'') (lower p) @ [?ep]" for q
  proof -
    have "lookup_path (loc @ [?ep]) ?tree' = lookup_path [?ep] (set_child ?ep ?new parent)"
      by (rule lookup_path_update_at[OF loc])
    also have "\<dots> = Inr ?new" by (simp add: getChild_set_child)
    finally show ?thesis
      by (simp add: traversePath_lookup[OF inst'] that parts lookup_root_def)
  qed
  have below: "fst (traversePath q False ?s') = fst (traversePath q False s)"
    if "rest \<noteq> [] \<and> split (CHR ''/'') (lower q) = split (CHR ''/'') (lower p) @ ?ep # rest"
    for q rest
  proof -
    from that have rest: "rest \<noteq> []"
      and q: "split (CHR ''/'') (lower q) = ROOT_ROUTE_NAME # (loc @ ?ep # rest)"
      by (simp_all add: parts)
    have "lookup_path (loc @ ?ep # rest) ?tree' = lookup_path (?ep # rest) (set_child ?ep ?new parent)"
      by (rule lookup_path_update_at[OF loc])
    also have "\<dots> = lookup_path rest ?new" by (simp add: getChild_set_child)
    also have "\<dots> = lookup_path rest old"
      by (rule lookup_path_children[OF rest]) simp
    also have "\<dots> = lookup_path (loc @ ?ep # rest) (tree inst)"
      by (simp add: lookup_path_append loc old)
    finally show ?thesis
      by (simp add: traversePath_lookup[OF inst'] traversePath_lookup[OF inst] q lookup_root_def)
  qed
  from edit target below show ?thesis by auto
qed

lemma demo_registry_instance:
  "network_instance demo_registry =
     Some \<lparr>tree = TreeNode 0 [(''network'', TreeNode 1 [(''get-tree'', TreeNode 2 [])]),
                              (''a'', TreeNode 3 [(''b'', TreeNode 4 [])])],
           route_record = [(''root/network/get-tree'', 2)],
           unEditableRoutes = [''root/network/get-tree'']\<rparr>"
  by (simp add: demo_registry_def NewRoute_def registry_defs Let_def)

lemma demo_registry_next: "next_route demo_registry = 5"
  by (simp add: demo_registry_def NewRoute_def registry_defs Let_def)

text \<open>
  The scenario of claim C6 on the demo registry: \<^verbatim>\<open>root/a\<close> and its child \<^verbatim>\<open>root/a/b\<close>
  are registered, then \<^verbatim>\<open>root/a\<close> is edited into a function route. \<^verbatim>\<open>root/a/b\<close> is
  traversed to the same node (Route 4) as before, and \<^verbatim>\<open>root/a\<close> to a node with the new
  Route 5 and the old child.
\<close>

theorem EditRoute_keeps_descendants_witness:
  "fst (traversePath ''root/a/b'' False demo_registry) = Inr (TreeNode 4 []) \<and>
   fst (EditRoute ''root''
          \<lparr>endPoint = ''a'', rp_secure = True, rp_remoteType = Function, rp_middleware = None\<rparr>
          demo_registry) = Inr () \<and>
   fst (traversePath ''root/a/b'' False
          (snd (EditRoute ''root''
                  \<lparr>endPoint = ''a'', rp_secure = True, rp_remoteType = Function, rp_middleware = None\<rparr>
                  demo_registry))) = Inr (TreeNode 4 []) \<and>
   fst (traversePath ''root/a'' False
          (snd (EditRoute ''root''
                  \<lparr>endPoint = ''a'', rp_secure = True, rp_remoteType = Function, rp_middleware = None\<rparr>
                  demo_registry))) = Inr (TreeNode 5 [(''b'', TreeNode 4 [])])"
proof -
  let ?rp = "\<lparr>endPoint = ''a'', rp_secure = True, rp_remoteType = Function, rp_middleware = None\<rparr>"
  let ?root = "TreeNode 0 [(''network'', TreeNode 1 [(''get-tree'', TreeNode 2 [])]),
                          (''a'', TreeNode 3 [(''b'', TreeNode 4 [])])]"
  note look = traversePath_lookup[OF demo_registry_instance]
  have par: "fst (traversePath ''root'' False demo_registry) = Inr ?root"
    by (simp add: look lookup_root_def lower_def lower_char_def ROOT_ROUTE_NAME_def)
  have old: "getChild ?root (endPoint ?rp) = Some (TreeNode 3 [(''b'', TreeNode 4 [])])"
    by (simp add: getChild_def)
  have before: "fst (traversePath ''root/a/b'' False demo_registry) = Inr (TreeNode 4 [])"
    by (simp add: look lookup_root_def lower_def lower_char_def ROOT_ROUTE_NAME_def getChild_def)
  from EditRoute_keeps_descendants[OF demo_registry_instance par old]
  obtain s' where edit: "EditRoute ''root'' ?rp demo_registry = (Inr (), s')"
    and target: "\<forall>q. split (CHR ''/'') (lower q) = split (CHR ''/'') (lower ''root'') @ [endPoint ?rp] \<longrightarrow>
                fst (traversePath q False s')
                  = Inr (TreeNode (next_route demo_registry) (children (TreeNode 3 [(''b'', TreeNode 4 [])])))"
    and below: "\<forall>q rest. rest \<noteq> [] \<and>
                split (CHR ''/'') (lower q) = split (CHR ''/'') (lower ''root'') @ endPoint ?rp # rest \<longrightarrow>
                fst (traversePath q False s') = fst (traversePath q False demo_registry)"
    by blast
  have "split (CHR ''/'') (lower ''root/a'') = split (CHR ''/'') (lower ''root'') @ [endPoint ?rp]"
    by (simp add: lower_def lower_char_def)
  with target have a: "fst (traversePath ''root/a'' False s') = Inr (TreeNode 5 [(''b'', TreeNode 4 [])])"
    by (simp add: demo_registry_next)
  have "[''b''] \<noteq> [] \<and>
        split (CHR ''/'') (lower ''root/a/b'') = split (CHR ''/'') (lower ''root'') @ endPoint ?rp # [''b'']"
    by (simp add: lower_def lower_char_def)
  with below have "fst (traversePath ''root/a/b'' False s') = fst (traversePath ''root/a/b'' False demo_registry)"
    by blast
  with before have b: "fst (traversePath ''root/a/b'' False s') = Inr (TreeNode 4 [])" by simp
  from before edit a b show ?thesis by simp
qed

subsection \<open>depthFirstSearch on a well named tree\<close>

lemma update_fresh: "k \<notin> fst ` set al \<Longrightarrow> AList.update k v al = al @ [(k, v)]"
  by (induction al) auto

lemma dfs_entries:
  "distinct (map fst (acc @ entries s t p)) \<Longrightarrow> depthFirstSearch s t p acc = acc @ entries s t p"
  "distinct (map fst (acc @ entries_children s cs fp)) \<Longrightarrow>
     dfs_children s cs fp acc = acc @ entries_children s cs fp"
proof (induction s t p acc and s cs fp acc rule: depthFirstSearch_dfs_children.induct)
  case (1 s a cs p simplifiedTree)
  let ?fp = "full_path p (name (routes s a))"
  from "1.prems" have fresh: "?fp \<notin> fst ` set simplifiedTree" by auto
  from "1.prems" have
    "distinct (map fst (AList.update ?fp (route_info s a) simplifiedTree @ entries_children s cs ?fp))"
    by (simp add: update_fresh[OF fresh])
  from "1.IH"[OF this] show ?case by (simp add: update_fresh[OF fresh])
next
  case (2 s fullPath simplifiedTree)
  show ?case by simp
next
  case (3 s key childNode rest fullPath simplifiedTree)
  from "3.prems" have d1: "distinct (map fst (simplifiedTree @ entries s childNode fullPath))"
    by auto
  note inner = "3.IH"(1)[OF d1]
  from "3.prems" have
    "distinct (map fst (depthFirstSearch s childNode fullPath simplifiedTree @ entries_children s rest fullPath))"
    by (simp add: inner)
  from "3.IH"(2)[OF this] show ?case by (simp add: inner)
qed

lemma length_located:
  "length (located t) = count_routes t"
  "length (located_children cs) = count_children cs"
  by (induction t and cs rule: count_routes_count_children.induct) simp_all

lemma address_Cons: "fp \<noteq> [] \<Longrightarrow> address (full_path fp key) pos = address fp (key # pos)"
  by (simp add: address_def full_path_def)

lemma full_path_nonempty: "fp \<noteq> [] \<Longrightarrow> full_path fp key \<noteq> []"
  by (simp add: full_path_def)

lemma entries_located:
  "well_named s t \<Longrightarrow> full_path p (name (routes s (node_value t))) \<noteq> [] \<Longrightarrow>
     entries s t p = map (\<lambda>(pos, a). (address (full_path p (name (routes s (node_value t)))) pos, route_info s a))
                       (located t)"
  "well_named_children s cs \<Longrightarrow> fp \<noteq> [] \<Longrightarrow>
     entries_children s cs fp = map (\<lambda>(pos, a). (address fp pos, route_info s a)) (located_children cs)"
proof (induction s t p and s cs fp rule: entries_entries_children.induct)
  case (1 s a cs p)
  then show ?case by (simp add: address_def)
next
  case (2 s fullPath)
  show ?case by simp
next
  case (3 s key childNode rest fullPath)
  from "3.prems" have key: "key = name (routes s (node_value childNode))"
    and wc: "well_named s childNode" and wr: "well_named_children s rest"
    by simp_all
  have ne: "full_path fullPath (name (routes s (node_value childNode))) \<noteq> []"
    using "3.prems"(2) by (rule full_path_nonempty)
  show ?case
    by (simp add: "3.IH"(1)[OF wc ne] "3.IH"(2)[OF wr "3.prems"(2)] key[symmetric]
        address_Cons[OF "3.prems"(2)] split_beta)
qed

lemma split_free: "sep \<notin> set a \<Longrightarrow> split sep a = [a]"
  by (induction a) auto

lemma split_append: "sep \<notin> set a \<Longrightarrow> split sep (a @ sep # b) = a # split sep b"
  by (induction a) auto

lemma split_address:
  "CHR ''/'' \<notin> set fp \<Longrightarrow> \<forall>part\<in>set pos. CHR ''/'' \<notin> set part \<Longrightarrow>
     split (CHR ''/'') (address fp pos) = fp # pos"
proof (induction pos arbitrary: fp)
  case Nil
  then show ?case by (simp add: address_def split_free)
next
  case (Cons part pos)
  have "address fp (part # pos) = fp @ CHR ''/'' # address part pos"
    by (simp add: address_def)
  with Cons show ?case by (simp add: split_append)
qed

lemma lower_address:
  "lower fp = fp \<Longrightarrow> \<forall>part\<in>set pos. lower part = part \<Longrightarrow> lower (address fp pos) = address fp pos"
proof (induction pos arbitrary: fp)
  case Nil
  then show ?case by (simp add: address_def)
next
  case (Cons part pos)
  have a: "address fp (part # pos) = fp @ CHR ''/'' # address part pos"
    by (simp add: address_def)
  have "lower (fp @ CHR ''/'' # address part pos) = lower fp @ CHR ''/'' # lower (address part pos)"
    by (simp add: lower_def lower_char_def)
  with Cons show ?case by (simp add: a)
qed

lemma located_children_head:
  "(pos, a) \<in> set (located_children cs) \<Longrightarrow> \<exists>key rest. pos = key # rest \<and> key \<in> fst ` set cs"
proof (induction cs)
  case Nil
  then show ?case by simp
next
  case (Cons c cs)
  obtain key child where c: "c = (key, child)" by (cases c)
  from Cons.prems consider
    (here) pos' where "pos = key # pos'"
    | (there) "(pos, a) \<in> set (located_children cs)"
    by (auto simp: c)
  then show ?case
  proof cases
    case here
    then show ?thesis by (simp add: c)
  next
    case there
    from Cons.IH[OF this] show ?thesis by auto
  qed
qed

lemma located_segments:
  "well_named s t \<Longrightarrow> (pos, a) \<in> set (located t) \<Longrightarrow>
     \<forall>part\<in>set pos. CHR ''/'' \<notin> set part \<and> lower part = part"
  "well_named_children s cs \<Longrightarrow> (pos, a) \<in> set (located_children cs) \<Longrightarrow>
     \<forall>part\<in>set pos. CHR ''/'' \<notin> set part \<and> lower part = part"
proof (induction s t and s cs arbitrary: pos and pos rule: well_named_well_named_children.induct)
  case (1 s b cs)
  then show ?case by auto
next
  case (2 s)
  then show ?case by simp
next
  case (3 s key child rest)
  from "3.prems"(2) consider
    (here) pos' where "pos = key # pos'" "(pos', a) \<in> set (located child)"
    | (there) "(pos, a) \<in> set (located_children rest)"
    by auto
  then show ?case
  proof cases
    case here
    from "3.prems"(1) have k: "CHR ''/'' \<notin> set key" "lower key = key" and wc: "well_named s child"
      by auto
    from "3.IH"(1)[OF wc here(2)] k here(1) show ?thesis by simp
  next
    case there
    from "3.prems"(1) have "well_named_children s rest" by simp
    from "3.IH"(2)[OF this there] show ?thesis .
  qed
qed

lemma located_lookup:
  "well_named s t \<Longrightarrow> (pos, a) \<in> set (located t) \<Longrightarrow>
     \<exists>n. lookup_path pos t = Inr n \<and> node_value n = a"
  "well_named_children s cs \<Longrightarrow> distinct (map fst cs) \<Longrightarrow> (pos, a) \<in> set (located_children cs) \<Longrightarrow>
     \<exists>key rest child n. pos = key # rest \<and> map_of cs key = Some child \<and>
        lookup_path rest child = Inr n \<and> node_value n = a"
proof (induction s t and s cs arbitrary: pos and pos rule: well_named_well_named_children.induct)
  case (1 s b cs)
  show ?case
  proof (cases "pos = [] \<and> a = b")
    case True
    then show ?thesis by simp
  next
    case False
    with "1.prems" have "(pos, a) \<in> set (located_children cs)" by auto
    from "1.IH"[OF _ _ this] "1.prems"(1)
    obtain key rest child n where "pos = key # rest" "map_of cs key = Some child"
      "lookup_path rest child = Inr n" "node_value n = a"
      by auto
    then show ?thesis by (simp add: getChild_def)
  qed
next
  case (2 s)
  then show ?case by simp
next
  case (3 s key child rest)
  from "3.prems"(3) consider
    (here) pos' where "pos = key # pos'" "(pos', a) \<in> set (located child)"
    | (there) "(pos, a) \<in> set (located_children rest)"
    by auto
  then show ?case
  proof cases
    case here
    from "3.IH"(1)[OF _ here(2)] "3.prems"(1)
    obtain n where "lookup_path pos' child = Inr n" "node_value n = a" by auto
    with here(1) show ?thesis by simp
  next
    case there
    from "3.IH"(2)[OF _ _ there] "3.prems"(1,2)
    obtain k r c n where f: "pos = k # r" "map_of rest k = Some c"
      "lookup_path r c = Inr n" "node_value n = a"
      by auto
    from f(2) have "k \<in> fst ` set rest" by (metis map_of_SomeD image_eqI fst_conv)
    with "3.prems"(2) have "k \<noteq> key" by auto
    with f show ?thesis by simp
  qed
qed

lemma distinct_located:
  "well_named s t \<Longrightarrow> distinct (map fst (located t))"
  "well_named_children s cs \<Longrightarrow> distinct (map fst cs) \<Longrightarrow> distinct (map fst (located_children cs))"
proof (induction s t and s cs rule: well_named_well_named_children.induct)
  case (1 s b cs)
  have "[] \<notin> fst ` set (located_children cs)"
    using located_children_head by fastforce
  with 1 show ?case by simp
next
  case (2 s)
  show ?case by simp
next
  case (3 s key child rest)
  have inj: "map fst (map (\<lambda>(pos, a). (key # pos, a)) (located child)) = map ((#) key) (map fst (located child))"
    by (simp add: split_beta)
  from "3.prems"(1) have "well_named s child" by simp
  from "3.IH"(1)[OF this] have d1: "distinct (map ((#) key) (map fst (located child)))"
    by (intro distinct_map[of "(#) key" "map fst (located child)", THEN iffD2] conjI)
       (simp_all add: inj_on_def)
  have d2: "distinct (map fst (located_children rest))"
    using "3.IH"(2) "3.prems" by simp
  have disj: "set (map ((#) key) (map fst (located child))) \<inter> set (map fst (located_children rest)) = {}"
  proof (rule ccontr)
    assume "\<not> ?thesis"
    then obtain pos where "pos \<in> set (map ((#) key) (map fst (located child)))"
      and "pos \<in> set (map fst (located_children rest))"
      by auto
    then obtain pos' a where "pos = key # pos'" and "(pos, a) \<in> set (located_children rest)"
      by auto
    with located_children_head[of pos a rest] have "key \<in> fst ` set rest" by auto
    with "3.prems"(2) show False by auto
  qed
  from d1 d2 disj show ?case by (simp add: inj del: map_map)
qed

text \<open>
  What \<open>depthFirstSearch\<close> does achieve. In a started registry whose tree is well
  named (every name below the root is one lower-case path segment) and whose root Route
  is named \<^verbatim>\<open>root\<close>, the table \<^verbatim>\<open>get-tree\<close> returns, the result of \<open>depthFirstSearch\<close>
  from the root, has pairwise different keys and as many entries as the tree has Routes,
  and \<^verbatim>\<open>traversePath\<close> on each key succeeds at a node whose Route the entry describes.
\<close>

theorem flatten_well_named:
  assumes inst: "network_instance s = Some inst"
    and wn: "well_named s (tree inst)"
    and rn: "name (routes s (node_value (tree inst))) = ROOT_ROUTE_NAME"
  shows "get_tree s = Inr (Table (depthFirstSearch s (tree inst) [] [])) \<and>
         distinct (map fst (depthFirstSearch s (tree inst) [] [])) \<and>
         length (depthFirstSearch s (tree inst) [] []) = count_routes (tree inst) \<and>
         (\<forall>(k, info) \<in> set (depthFirstSearch s (tree inst) [] []).
            \<exists>n. fst (traversePath k False s) = Inr n \<and> info = route_info s (node_value n))"
proof -
  let ?t = "tree inst"
  let ?R = "ROOT_ROUTE_NAME"
  have fp: "full_path [] (name (routes s (node_value ?t))) = ?R"
    by (simp add: full_path_def rn)
  have Rne: "?R \<noteq> []" and Rfree: "CHR ''/'' \<notin> set ?R" and Rlow: "lower ?R = ?R"
    by (simp_all add: ROOT_ROUTE_NAME_def lower_def lower_char_def)
  have ent: "entries s ?t [] = map (\<lambda>(pos, a). (address ?R pos, route_info s a)) (located ?t)"
    using entries_located(1)[OF wn, of "[]"] fp Rne by simp
  have keys: "map fst (entries s ?t []) = map (address ?R) (map fst (located ?t))"
    by (simp add: ent split_beta)
  have seg: "\<forall>part\<in>set pos. CHR ''/'' \<notin> set part \<and> lower part = part"
    if "pos \<in> set (map fst (located ?t))" for pos
  proof -
    from that obtain a where "(pos, a) \<in> set (located ?t)" by auto
    from located_segments(1)[OF wn this] show ?thesis .
  qed
  have parts: "split (CHR ''/'') (lower (address ?R pos)) = ?R # pos"
    if "pos \<in> set (map fst (located ?t))" for pos
    using seg[OF that] by (simp add: lower_address[OF Rlow] split_address[OF Rfree])
  have "inj_on (address ?R) (set (map fst (located ?t)))"
  proof (rule inj_onI)
    fix x y
    assume x: "x \<in> set (map fst (located ?t))" and y: "y \<in> set (map fst (located ?t))"
      and eq: "address ?R x = address ?R y"
    have "?R # x = split (CHR ''/'') (lower (address ?R x))" by (rule parts[OF x, symmetric])
    also have "\<dots> = split (CHR ''/'') (lower (address ?R y))" by (simp only: eq)
    also have "\<dots> = ?R # y" by (rule parts[OF y])
    finally show "x = y" by simp
  qed
  with distinct_located(1)[OF wn] have dk: "distinct (map fst (entries s ?t []))"
    unfolding keys
    by (intro distinct_map[of "address ?R" "map fst (located ?t)", THEN iffD2] conjI)
  then have dfs: "depthFirstSearch s ?t [] [] = entries s ?t []"
    using dfs_entries(1)[of "[]" s ?t "[]"] by simp
  have len: "length (depthFirstSearch s ?t [] []) = count_routes ?t"
    by (simp add: dfs ent length_located)
  have res: "\<exists>n. fst (traversePath k False s) = Inr n \<and> info = route_info s (node_value n)"
    if "(k, info) \<in> set (depthFirstSearch s ?t [] [])" for k info
  proof -
    from that obtain pos a where la: "(pos, a) \<in> set (located ?t)"
      and k: "k = address ?R pos" and info: "info = route_info s a"
      by (auto simp: dfs ent)
    from la have "pos \<in> set (map fst (located ?t))" by force
    from parts[OF this] have p: "split (CHR ''/'') (lower k) = ?R # pos" by (simp add: k)
    from located_lookup(1)[OF wn la] obtain n where "lookup_path pos ?t = Inr n" "node_value n = a"
      by blast
    then show ?thesis
      by (simp add: traversePath_lookup[OF inst] p lookup_root_def info)
  qed
  have "get_tree s = Inr (Table (depthFirstSearch s ?t [] []))"
    by (simp add: get_tree_def inst)
  with dk dfs len res show ?thesis by auto
qed

lemma demo_registry_names:
  "name (routes demo_registry 0) = ''root''"
  "name (routes demo_registry 1) = ''network''"
  "name (routes demo_registry (Suc 0)) = ''network''"
  "name (routes demo_registry 2) = ''get-tree''"
  "name (routes demo_registry 3) = ''a''"
  "name (routes demo_registry 4) = ''b''"
  by (simp_all add: demo_registry_def NewRoute_def registry_defs Let_def)

text \<open>
  The demo registry is such a registry: its tree has five Routes, the flattened table
  has the five addresses as keys, and \<^verbatim>\<open>root/a/b\<close> is traversed to the node of Route 4.
\<close>

theorem flatten_demo_registry:
  "map fst (depthFirstSearch demo_registry
              (TreeNode 0 [(''network'', TreeNode 1 [(''get-tree'', TreeNode 2 [])]),
                           (''a'', TreeNode 3 [(''b'', TreeNode 4 [])])]) [] [])
     = [''root'', ''root/network'', ''root/network/get-tree'', ''root/a'', ''root/a/b''] \<and>
   count_routes (TreeNode 0 [(''network'', TreeNode 1 [(''get-tree'', TreeNode 2 [])]),
                             (''a'', TreeNode 3 [(''b'', TreeNode 4 [])])]) = 5 \<and>
   (\<exists>n. fst (traversePath ''root/a/b'' False demo_registry) = Inr n \<and> node_value n = 4)"
proof -
  let ?t = "TreeNode 0 [(''network'', TreeNode 1 [(''get-tree'', TreeNode 2 [])]),
                        (''a'', TreeNode 3 [(''b'', TreeNode 4 [])])]"
  let ?inst = "\<lparr>tree = ?t, route_record = [(''root/network/get-tree'', 2)],
               unEditableRoutes = [''root/network/get-tree'']\<rparr>"
  have wn: "well_named demo_registry (tree ?inst)"
    by (simp add: demo_registry_names lower_def lower_char_def)
  have rn: "name (routes demo_registry (node_value (tree ?inst))) = ROOT_ROUTE_NAME"
    by (simp add: demo_registry_names ROOT_ROUTE_NAME_def)
  have keys: "map fst (depthFirstSearch demo_registry ?t [] [])
     = [''root'', ''root/network'', ''root/network/get-tree'', ''root/a'', ''root/a/b'']"
    by (simp add: demo_registry_names full_path_def)
  have "''root/a/b'' \<in> set (map fst (depthFirstSearch demo_registry ?t [] []))"
    by (simp only: keys) simp
  then obtain e where e: "e \<in> set (depthFirstSearch demo_registry ?t [] [])" "fst e = ''root/a/b''"
    by (auto simp only: set_map image_iff)
  then have mem: "(''root/a/b'', snd e) \<in> set (depthFirstSearch demo_registry ?t [] [])"
    by (metis prod.collapse)
  from flatten_well_named[OF demo_registry_instance wn rn]
  have "\<forall>(k, info) \<in> set (depthFirstSearch demo_registry (tree ?inst) [] []).
          \<exists>n. fst (traversePath k False demo_registry) = Inr n \<and>
              info = route_info demo_registry (node_value n)"
    by blast
  then have "\<forall>(k, info) \<in> set (depthFirstSearch demo_registry ?t [] []).
          \<exists>n. fst (traversePath k False demo_registry) = Inr n \<and>
              info = route_info demo_registry (node_value n)"
    by (simp only: Network.simps)
  from bspec[OF this mem]
  obtain n where n: "fst (traversePath ''root/a/b'' False demo_registry) = Inr n"
    by (auto simp only: prod.case)
  from n have "node_value n = 4"
    by (auto simp: traversePath_lookup[OF demo_registry_instance] lookup_root_def lower_def
        lower_char_def ROOT_ROUTE_NAME_def getChild_def)
  with n keys show ?thesis by simp
qed

text \<open>
  Claim C7 at a concrete input. After \<^verbatim>\<open>start\<close> and
  \<^verbatim>\<open>NewRoute("root", {endPoint: "Shop", secure: true, remoteType: "event", middleware: false})\<close>
  the flattened table that \<^verbatim>\<open>get-tree\<close> sends to the peers has the key \<^verbatim>\<open>root/Shop\<close>.
  \<^verbatim>\<open>NewRoute\<close> files the child under \<^verbatim>\<open>Shop\<close> as spelled, while \<^verbatim>\<open>traversePath\<close>
  lower-cases the path: on the key \<^verbatim>\<open>root/Shop\<close> it raises for the part \<^verbatim>\<open>shop\<close>, and so
  does \<^verbatim>\<open>OnEvent("Connect", "root/Shop", handler)\<close>. The \<^verbatim>\<open>createMissing\<close> branch of
  \<^verbatim>\<open>traversePath\<close> does file lower-case names: \<^verbatim>\<open>NewRoute("root/Shop", {endPoint: "item", ...})\<close>
  puts a second child \<^verbatim>\<open>shop\<close> beside \<^verbatim>\<open>Shop\<close>.
\<close>

theorem NewRoute_uppercase_key_unresolvable:
  "get_tree (snd (NewRoute ''root''
                    \<lparr>endPoint = ''Shop'', rp_secure = True, rp_remoteType = Event, rp_middleware = None\<rparr>
                    (snd (start (loaded (0::nat))))))
     = Inr (Table
        [(''root'', \<lparr>sri_remote = RemoteEvent 0, sri_secure = True, sri_remoteType = Event,
                      sri_cooldown = Some 10\<rparr>),
         (''root/network'', \<lparr>sri_remote = RemoteEvent 1, sri_secure = True, sri_remoteType = Event,
                              sri_cooldown = Some 5\<rparr>),
         (''root/network/get-tree'', \<lparr>sri_remote = RemoteEvent 2, sri_secure = True,
                                       sri_remoteType = Function, sri_cooldown = Some 5\<rparr>),
         (''root/Shop'', \<lparr>sri_remote = RemoteEvent 3, sri_secure = True, sri_remoteType = Event,
                           sri_cooldown = None\<rparr>)]) \<and>
   fst (traversePath ''root/Shop'' False
         (snd (NewRoute ''root''
                 \<lparr>endPoint = ''Shop'', rp_secure = True, rp_remoteType = Event, rp_middleware = None\<rparr>
                 (snd (start (loaded (0::nat)))))))
     = Inl (RouteNotFound ''shop'') \<and>
   fst (OnEvent Connect ''root/Shop'' (\<lambda>_ _ w. Done w)
         (snd (NewRoute ''root''
                 \<lparr>endPoint = ''Shop'', rp_secure = True, rp_remoteType = Event, rp_middleware = None\<rparr>
                 (snd (start (loaded (0::nat)))))))
     = Inl (RouteNotFound ''shop'') \<and>
   network_instance
     (snd (NewRoute ''root/Shop''
             \<lparr>endPoint = ''item'', rp_secure = True, rp_remoteType = Event, rp_middleware = None\<rparr>
             (snd (NewRoute ''root''
                     \<lparr>endPoint = ''Shop'', rp_secure = True, rp_remoteType = Event, rp_middleware = None\<rparr>
                     (snd (start (loaded (0::nat))))))))
     = Some \<lparr>tree = TreeNode 0 [(''network'', TreeNode 1 [(''get-tree'', TreeNode 2 [])]),
                                (''Shop'', TreeNode 3 []),
                                (''shop'', TreeNode 4 [(''item'', TreeNode 5 [])])],
             route_record = [(''root/network/get-tree'', 2)],
             unEditableRoutes = [''root/network/get-tree'']\<rparr>"
  by (simp add: get_tree_def NewRoute_def OnEvent_def registry_defs route_info_def full_path_def
      Let_def)

subsection \<open>The polling loop of InvokeServer\<close>

lemma wait_loop_total:
  "waitTime - (now - startTime) \<le> duration sched \<Longrightarrow>
     wait_loop startTime waitTime sched now result live \<noteq> None"
proof (induction sched arbitrary: now result live)
  case Nil
  then show ?case by (simp add: duration_def)
next
  case (Cons x sched)
  obtain dt msgs where x: "x = (dt, msgs)" by (cases x)
  from Cons.prems have "waitTime - (now + dt - startTime) \<le> duration sched"
    by (simp add: duration_def x)
  from Cons.IH[OF this] show ?case by (simp add: x)
qed

lemma wait_loop_quiet:
  assumes "arrivals (waitTime - (now - startTime)) sched = []"
    and "waitTime - (now - startTime) \<le> duration sched"
  shows "\<exists>now' rest. wait_loop startTime waitTime sched now Undefined live
           = Some (now', Undefined, live, rest) \<and> waitTime \<le> now' - startTime"
  using assms
proof (induction sched arbitrary: now)
  case Nil
  then show ?case by (simp add: duration_def)
next
  case (Cons x sched)
  obtain dt msgs where x: "x = (dt, msgs)" by (cases x)
  show ?case
  proof (cases "now - startTime < waitTime")
    case True
    with Cons.prems(1) have msgs: "msgs = []"
      and arr: "arrivals (waitTime - (now + dt - startTime)) sched = []"
      by (simp_all add: x algebra_simps)
    from Cons.prems(2) have "waitTime - (now + dt - startTime) \<le> duration sched"
      by (simp add: duration_def x)
    from Cons.IH[OF arr this] True show ?thesis
      by (simp add: x msgs receive_once_def)
  next
    case False
    then show ?thesis by (simp add: x)
  qed
qed

lemma wait_loop_undefined:
  assumes "live \<longrightarrow> no_defined_reply (waitTime - (now - startTime)) sched"
    and "wait_loop startTime waitTime sched now Undefined live = Some (now', r, live', rest)"
  shows "r = Undefined \<and> waitTime \<le> now' - startTime"
  using assms
proof (induction sched arbitrary: now live)
  case Nil
  then show ?case by (simp split: if_splits)
next
  case (Cons x sched)
  obtain dt msgs where x: "x = (dt, msgs)" by (cases x)
  show ?case
  proof (cases "now - startTime < waitTime")
    case True
    let ?r = "fst (receive_once msgs Undefined live)"
    let ?l = "snd (receive_once msgs Undefined live)"
    have r: "?r = Undefined"
      using Cons.prems(1) True
      by (cases msgs) (auto simp: receive_once_def no_defined_reply_def x)
    have l: "?l \<longrightarrow> no_defined_reply (waitTime - (now + dt - startTime)) sched"
      using Cons.prems(1) True
      by (cases msgs) (auto simp: receive_once_def no_defined_reply_def x algebra_simps)
    from Cons.prems(2) True
    have "wait_loop startTime waitTime sched (now + dt) Undefined ?l = Some (now', r, live', rest)"
      by (simp add: x r)
    from Cons.IH[OF l this] show ?thesis .
  next
    case False
    with Cons.prems(2) show ?thesis by (simp add: x)
  qed
qed

lemma mute_idem: "mute (mute sched) = mute sched"
  by (induction sched) (auto simp: mute_def)

text \<open>What a finished polling loop hands on when the rest of the future is muted and the
  state of the spent connection is forgotten.\<close>

lemma wait_loop_mute:
  assumes "live \<longrightarrow> no_defined_reply (waitTime - (now - startTime)) sched"
  shows "map_option (\<lambda>(now', r, l, rest). (now', r, mute rest))
           (wait_loop startTime waitTime sched now Undefined live)
         = map_option (\<lambda>(now', r, l, rest). (now', r, mute rest))
           (wait_loop startTime waitTime (mute sched) now Undefined live0)"
  using assms
proof (induction sched arbitrary: now live live0)
  case Nil
  then show ?case by (simp add: mute_def)
next
  case (Cons x sched)
  obtain dt msgs where x: "x = (dt, msgs)" by (cases x)
  show ?case
  proof (cases "now - startTime < waitTime")
    case True
    let ?l = "snd (receive_once msgs Undefined live)"
    have r: "fst (receive_once msgs Undefined live) = Undefined"
      using Cons.prems True
      by (cases msgs) (auto simp: receive_once_def no_defined_reply_def x)
    have l: "?l \<longrightarrow> no_defined_reply (waitTime - (now + dt - startTime)) sched"
      using Cons.prems True
      by (cases msgs) (auto simp: receive_once_def no_defined_reply_def x algebra_simps)
    have m: "mute (x # sched) = (dt, []) # mute sched" by (simp add: mute_def x)
    have e: "receive_once [] Undefined live0 = (Undefined, live0)" by (simp add: receive_once_def)
    from Cons.IH[OF l, of live0] True show ?thesis
      by (simp add: m e) (simp add: x r)
  next
    case False
    have m: "mute (x # sched) = (dt, []) # mute sched" by (simp add: mute_def x)
    have mm: "mute ((dt, []) # mute sched) = mute (x # sched)"
      using mute_idem[of "x # sched"] by (simp only: m)
    from False show ?thesis
      by (simp add: m) (simp add: x mm)
  qed
qed

subsection \<open>InvokeServer and the peer's start\<close>

lemma InvokeServer_sent:
  assumes "client_instance s = Some inst" and "client_getRoute inst route = Inr routeInfo"
    and "sri_remoteType routeInfo = Function" and "\<not> cooldown_active inst route routeInfo (clock s)"
  shows "InvokeServer route waitTime args s =
     (case wait_loop (clock s) waitTime (future s) (clock s) Undefined True of
        None \<Rightarrow> None
      | Some (now, result, live, rest) \<Rightarrow>
          Some (Inr result,
                s\<lparr>conns := conns s @ [\<lparr>cc_remote = sri_remote routeInfo, cc_eventType = Once,
                                        cc_handler = CaptureResult, cc_Connected = False\<rparr>],
                  fired := fired s @ [(sri_remote routeInfo, args)],
                  client_instance :=
                    Some (inst\<lparr>client_log := (client_log inst)(route \<mapsto> \<lparr>lastFireServer = clock s\<rparr>)\<rparr>),
                  clock := now, future := rest\<rparr>))"
  using assms
  by (auto simp: InvokeServer_def Let_def disconnect_def split: option.splits)

lemma InvokeServer_returns:
  assumes "InvokeServer route waitTime args s = Some (Inr r, s')"
  shows "\<exists>inst routeInfo. client_instance s = Some inst \<and> client_getRoute inst route = Inr routeInfo \<and>
           sri_remoteType routeInfo = Function \<and> \<not> cooldown_active inst route routeInfo (clock s)"
  using assms
  by (auto simp: InvokeServer_def Let_def split: option.splits sum.splits if_splits)

lemma InvokeServer_throws:
  assumes "InvokeServer route waitTime args s = Some (Inl e, s')"
  shows "s' = s"
  using assms
  by (auto simp: InvokeServer_def Let_def split: option.splits sum.splits if_splits)

lemma InvokeServer_detached:
  assumes "InvokeServer route waitTime args s = Some (Inr r, s')"
  shows "detached s s'"
proof -
  from InvokeServer_returns[OF assms] obtain inst routeInfo where
    pre: "client_instance s = Some inst" "client_getRoute inst route = Inr routeInfo"
      "sri_remoteType routeInfo = Function" "\<not> cooldown_active inst route routeInfo (clock s)"
    by blast
  from assms show ?thesis
    unfolding InvokeServer_sent[OF pre]
    by (auto simp: detached_def split: option.splits)
qed

text \<open>
  Claim C8, as amended. A call of \<^verbatim>\<open>InvokeServer\<close> that passes the checks made before
  sending (the registry is started, the route is in the table with type function, the
  peer-side cooldown is not active), during which no reply arrives, returns the
  \<^verbatim>\<open>undefined\<close> value and not an error, once at least \<open>waitTime\<close> has passed on the clock;
  the future has to reach that far for the model to follow the run. For every call, in
  every state: when it returns a value, with or without a reply, its \<^verbatim>\<open>Once\<close> listener
  exists and is disconnected; when it raises, the state is as before the call, so no
  listener was attached.
\<close>

theorem InvokeServer_timeout:
  "(client_instance s = Some inst \<and> client_getRoute inst route = Inr routeInfo \<and>
    sri_remoteType routeInfo = Function \<and> \<not> cooldown_active inst route routeInfo (clock s) \<and>
    arrivals waitTime (future s) = [] \<and> waitTime \<le> duration (future s) \<longrightarrow>
      (\<exists>s'. InvokeServer route waitTime args s = Some (Inr Undefined, s') \<and>
             waitTime \<le> clock s' - clock s \<and> detached s s')) \<and>
   (\<forall>r s'. InvokeServer route waitTime args s = Some (Inr r, s') \<longrightarrow> detached s s') \<and>
   (\<forall>e s'. InvokeServer route waitTime args s = Some (Inl e, s') \<longrightarrow> s' = s)"
proof (intro conjI impI allI)
  assume pre: "client_instance s = Some inst \<and> client_getRoute inst route = Inr routeInfo \<and>
    sri_remoteType routeInfo = Function \<and> \<not> cooldown_active inst route routeInfo (clock s) \<and>
    arrivals waitTime (future s) = [] \<and> waitTime \<le> duration (future s)"
  then have checks: "client_instance s = Some inst" "client_getRoute inst route = Inr routeInfo"
      "sri_remoteType routeInfo = Function" "\<not> cooldown_active inst route routeInfo (clock s)"
    by simp_all
  from pre have "arrivals (waitTime - (clock s - clock s)) (future s) = []"
    and "waitTime - (clock s - clock s) \<le> duration (future s)"
    by simp_all
  from wait_loop_quiet[OF this, of True] obtain now' rest where
    loop: "wait_loop (clock s) waitTime (future s) (clock s) Undefined True
             = Some (now', Undefined, True, rest)"
    and late: "waitTime \<le> now' - clock s"
    by blast
  let ?s' = "s\<lparr>conns := conns s @ [\<lparr>cc_remote = sri_remote routeInfo, cc_eventType = Once,
                                      cc_handler = CaptureResult, cc_Connected = False\<rparr>],
               fired := fired s @ [(sri_remote routeInfo, args)],
               client_instance :=
                 Some (inst\<lparr>client_log := (client_log inst)(route \<mapsto> \<lparr>lastFireServer = clock s\<rparr>)\<rparr>),
               clock := now', future := rest\<rparr>"
  have inv: "InvokeServer route waitTime args s = Some (Inr Undefined, ?s')"
    by (simp add: InvokeServer_sent[OF checks] loop)
  moreover have "waitTime \<le> clock ?s' - clock s" using late by simp
  moreover have "detached s ?s'" using InvokeServer_detached[OF inv] .
  ultimately show "\<exists>s'. InvokeServer route waitTime args s = Some (Inr Undefined, s') \<and>
                   waitTime \<le> clock s' - clock s \<and> detached s s'"
    by blast
next
  fix r s' assume "InvokeServer route waitTime args s = Some (Inr r, s')"
  then show "detached s s'" by (rule InvokeServer_detached)
next
  fix e s' assume "InvokeServer route waitTime args s = Some (Inl e, s')"
  then show "s' = s" by (rule InvokeServer_throws)
qed

text \<open>
  An instance of the amended claim C8: \<^verbatim>\<open>InvokeServer("root/additions", 0.2)\<close> on the
  demo peer, with no reply, returns \<^verbatim>\<open>undefined\<close> after 0.2 on the clock with its
  listener disconnected; the same call made again at once raises the cooldown error and
  leaves the state, and so the list of connections, as it was.
\<close>

theorem InvokeServer_timeout_witness:
  "(\<exists>s'. InvokeServer ''root/additions'' 0.2 [] demo_peer = Some (Inr Undefined, s') \<and>
          0.2 \<le> clock s' - clock demo_peer \<and> detached demo_peer s') \<and>
   InvokeServer ''root/additions'' 0.2 [] demo_peer_called
     = Some (Inl (OnCooldown ''root/additions''), demo_peer_called)"
proof -
  let ?inst = "new_ClientNetwork (Table
          [(''root/additions'',
            \<lparr>sri_remote = RemoteEvent 3, sri_secure = True, sri_remoteType = Function,
             sri_cooldown = Some 1\<rparr>)])"
  let ?info = "\<lparr>sri_remote = RemoteEvent 3, sri_secure = True, sri_remoteType = Function,
             sri_cooldown = Some 1\<rparr>"
  have pre: "client_instance demo_peer = Some ?inst \<and>
      client_getRoute ?inst ''root/additions'' = Inr ?info \<and>
      sri_remoteType ?info = Function \<and>
      \<not> cooldown_active ?inst ''root/additions'' ?info (clock demo_peer) \<and>
      arrivals 0.2 (future demo_peer) = [] \<and> 0.2 \<le> duration (future demo_peer)"
    by (simp add: demo_peer_def client_getRoute_def new_ClientNetwork_def cooldown_active_def
        duration_def)
  note sent = InvokeServer_timeout[where s = demo_peer and inst = ?inst and route = "''root/additions''"
      and routeInfo = ?info and waitTime = "0.2" and args = "[]", THEN conjunct1, rule_format, OF pre]
  have "\<exists>s'. InvokeServer ''root/additions'' 0.2 [] demo_peer_called
          = Some (Inl (OnCooldown ''root/additions''), s')"
    by (simp add: InvokeServer_def demo_peer_called_def client_getRoute_def cooldown_active_def)
  then obtain s' where raised: "InvokeServer ''root/additions'' 0.2 [] demo_peer_called
          = Some (Inl (OnCooldown ''root/additions''), s')"
    by blast
  note unchanged = InvokeServer_timeout[where s = demo_peer_called and route = "''root/additions''"
      and waitTime = "0.2" and args = "[]", THEN conjunct2, THEN conjunct2, rule_format, OF raised]
  from sent raised unchanged show ?thesis by simp
qed

text \<open>
  Claim C8 as stated fails where the peer-side cooldown is active: on the demo peer the
  first \<^verbatim>\<open>InvokeServer("root/additions", 0.2)\<close> times out and returns \<^verbatim>\<open>undefined\<close>; the
  second one, made at once on the same function route and again with no reply ahead,
  raises the cooldown error instead of returning \<^verbatim>\<open>undefined\<close>.
\<close>

theorem InvokeServer_on_cooldown_raises:
  "InvokeServer ''root/additions'' 0.2 [] demo_peer = Some (Inr Undefined, demo_peer_called) \<and>
   map_option routingTable (client_instance demo_peer_called)
     = Some (Table [(''root/additions'',
                     \<lparr>sri_remote = RemoteEvent 3, sri_secure = True, sri_remoteType = Function,
                      sri_cooldown = Some 1\<rparr>)]) \<and>
   arrivals 0.2 (future demo_peer_called) = [] \<and>
   InvokeServer ''root/additions'' 0.2 [] demo_peer_called
     = Some (Inl (OnCooldown ''root/additions''), demo_peer_called)"
  by (simp add: InvokeServer_def demo_peer_def demo_peer_called_def client_getRoute_def
      new_ClientNetwork_def cooldown_active_def receive_once_def disconnect_def Let_def)

lemma wait_loop_mute_rest:
  "wait_loop startTime waitTime (mute sched) now result live = Some (now', r, l, rest) \<Longrightarrow>
     mute rest = rest"
proof (induction sched arbitrary: now result live)
  case Nil
  then show ?case by (simp add: mute_def split: if_splits)
next
  case (Cons x sched)
  obtain dt msgs where x: "x = (dt, msgs)" by (cases x)
  have m: "mute (x # sched) = (dt, []) # mute sched" by (simp add: mute_def x)
  show ?case
  proof (cases "now - startTime < waitTime \<and> result = Undefined")
    case True
    with Cons.prems have
      "wait_loop startTime waitTime (mute sched) (now + dt)
         (fst (receive_once [] result live)) (snd (receive_once [] result live))
       = Some (now', r, l, rest)"
      by (simp add: m)
    then show ?thesis by (rule Cons.IH)
  next
    case False
    with Cons.prems have "rest = (dt, []) # mute sched" by (auto simp: m)
    then show ?thesis using mute_idem[of "x # sched"] by (simp add: m)
  qed
qed

lemma InvokeServer_mute:
  assumes "no_defined_reply waitTime (future s)"
  shows "map_option (\<lambda>(r, s'). (r, s'\<lparr>future := mute (future s')\<rparr>)) (InvokeServer route waitTime args s)
         = InvokeServer route waitTime args (s\<lparr>future := mute (future s)\<rparr>)"
proof (cases "\<exists>inst routeInfo. client_instance s = Some inst \<and> client_getRoute inst route = Inr routeInfo \<and>
           sri_remoteType routeInfo = Function \<and> \<not> cooldown_active inst route routeInfo (clock s)")
  case True
  then obtain inst routeInfo where
    pre: "client_instance s = Some inst" "client_getRoute inst route = Inr routeInfo"
      "sri_remoteType routeInfo = Function" "\<not> cooldown_active inst route routeInfo (clock s)"
    by blast
  let ?m = "s\<lparr>future := mute (future s)\<rparr>"
  have pre': "client_instance ?m = Some inst" "client_getRoute inst route = Inr routeInfo"
      "sri_remoteType routeInfo = Function" "\<not> cooldown_active inst route routeInfo (clock ?m)"
    using pre by simp_all
  from assms have "True \<longrightarrow> no_defined_reply (waitTime - (clock s - clock s)) (future s)" by simp
  from wait_loop_mute[OF this, where ?live0.0 = True]
  have eq: "map_option (\<lambda>(now', r, l, rest). (now', r, mute rest))
           (wait_loop (clock s) waitTime (future s) (clock s) Undefined True)
         = map_option (\<lambda>(now', r, l, rest). (now', r, mute rest))
           (wait_loop (clock s) waitTime (mute (future s)) (clock s) Undefined True)" .
  show ?thesis
  proof (cases "wait_loop (clock s) waitTime (mute (future s)) (clock s) Undefined True")
    case None
    with eq have "wait_loop (clock s) waitTime (future s) (clock s) Undefined True = None" by simp
    with None show ?thesis
      by (simp add: InvokeServer_sent[OF pre] InvokeServer_sent[OF pre'])
  next
    case (Some res)
    then obtain now' r l rest where
      m: "wait_loop (clock s) waitTime (mute (future s)) (clock s) Undefined True = Some (now', r, l, rest)"
      by (cases res) auto
    from wait_loop_mute_rest[OF m] have rest: "mute rest = rest" .
    from eq m obtain l2 rest2 where
      o: "wait_loop (clock s) waitTime (future s) (clock s) Undefined True = Some (now', r, l2, rest2)"
      and rest2: "mute rest2 = mute rest"
      by (cases "wait_loop (clock s) waitTime (future s) (clock s) Undefined True") auto
    show ?thesis
      by (simp add: InvokeServer_sent[OF pre] InvokeServer_sent[OF pre'] m o rest rest2)
  qed
next
  case False
  then show ?thesis
    by (auto simp: InvokeServer_def Let_def split: option.splits sum.splits)
qed

text \<open>
  Claim C10. Let the first reply that arrives during a call of \<^verbatim>\<open>InvokeServer\<close> be
  \<^verbatim>\<open>undefined\<close>. Then the call ends as it does when every reply is removed from the
  future: same outcome, same state, same waits. A call that passes the checks made
  before sending returns \<^verbatim>\<open>undefined\<close>, and not before \<open>waitTime\<close> has passed on the
  clock (the future has to reach that far for the model to follow the run). On the
  host, a handler of \<^verbatim>\<open>OnInvoke\<close> that returns \<^verbatim>\<open>undefined\<close> makes the listener send
  exactly that value to the caller.
\<close>

theorem undefined_reply_is_timeout:
  assumes "arrivals waitTime (future s) = Undefined # later"
  shows "map_option (\<lambda>(r, s'). (r, s'\<lparr>future := mute (future s')\<rparr>)) (InvokeServer route waitTime args s)
           = InvokeServer route waitTime args (s\<lparr>future := mute (future s)\<rparr>) \<and>
         (\<forall>inst routeInfo.
            client_instance s = Some inst \<and> client_getRoute inst route = Inr routeInfo \<and>
            sri_remoteType routeInfo = Function \<and> \<not> cooldown_active inst route routeInfo (clock s) \<and>
            waitTime \<le> duration (future s) \<longrightarrow>
            (\<exists>s'. InvokeServer route waitTime args s = Some (Inr Undefined, s') \<and>
                   waitTime \<le> clock s' - clock s)) \<and>
         (\<forall>a callback player margs t (sv :: 'v Server) sv' w'.
            run_middleware a player t margs sv = (True, sv') \<and>
            callback player margs (world sv') = Reply Undefined w' \<longrightarrow>
            invoke_listener a (InvokeListener callback) player margs t sv
              = (Inr (), sv'\<lparr>world := w',
                            sent := sent sv' @ [(remote (routes sv' a), UserId player, Undefined)]\<rparr>))"
proof -
  from assms have ndr: "no_defined_reply waitTime (future s)"
    by (simp add: no_defined_reply_def)
  have A: "map_option (\<lambda>(r, s'). (r, s'\<lparr>future := mute (future s')\<rparr>)) (InvokeServer route waitTime args s)
           = InvokeServer route waitTime args (s\<lparr>future := mute (future s)\<rparr>)"
    by (rule InvokeServer_mute[OF ndr])
  have B: "r = Undefined \<and> waitTime \<le> clock s' - clock s"
    if ret: "InvokeServer route waitTime args s = Some (Inr r, s')" for r s'
  proof -
    from InvokeServer_returns[OF ret] obtain inst routeInfo where
      pre: "client_instance s = Some inst" "client_getRoute inst route = Inr routeInfo"
        "sri_remoteType routeInfo = Function" "\<not> cooldown_active inst route routeInfo (clock s)"
      by blast
    from ret obtain now' l rest where
      loop: "wait_loop (clock s) waitTime (future s) (clock s) Undefined True = Some (now', r, l, rest)"
      and clk: "clock s' = now'"
      unfolding InvokeServer_sent[OF pre] by (auto split: option.splits)
    from ndr have "True \<longrightarrow> no_defined_reply (waitTime - (clock s - clock s)) (future s)" by simp
    from wait_loop_undefined[OF this loop] clk show ?thesis by simp
  qed
  have C: "InvokeServer route waitTime args s \<noteq> None" if long: "waitTime \<le> duration (future s)"
  proof -
    from long have "waitTime - (clock s - clock s) \<le> duration (future s)" by simp
    from wait_loop_total[OF this, of Undefined True] show ?thesis
      by (auto simp: InvokeServer_def Let_def split: option.splits sum.splits)
  qed
  have D: "invoke_listener a (InvokeListener callback) player margs t sv
              = (Inr (), sv'\<lparr>world := w',
                            sent := sent sv' @ [(remote (routes sv' a), UserId player, Undefined)]\<rparr>)"
    if "run_middleware a player t margs sv = (True, sv') \<and>
        callback player margs (world sv') = Reply Undefined w'"
    for a callback player margs t and sv :: "'v Server" and sv' w'
    using that by (simp add: invoke_listener_def)
  have E: "\<exists>s'. InvokeServer route waitTime args s = Some (Inr Undefined, s') \<and>
                waitTime \<le> clock s' - clock s"
    if pre: "client_instance s = Some inst \<and> client_getRoute inst route = Inr routeInfo \<and>
            sri_remoteType routeInfo = Function \<and> \<not> cooldown_active inst route routeInfo (clock s) \<and>
            waitTime \<le> duration (future s)"
    for inst routeInfo
  proof -
    from pre have p: "client_instance s = Some inst" "client_getRoute inst route = Inr routeInfo"
        "sri_remoteType routeInfo = Function" "\<not> cooldown_active inst route routeInfo (clock s)"
      and long: "waitTime \<le> duration (future s)"
      by simp_all
    from C[OF long] obtain res s' where "InvokeServer route waitTime args s = Some (res, s')"
      by (cases "InvokeServer route waitTime args s") auto
    moreover from this obtain r where "res = Inr r"
      unfolding InvokeServer_sent[OF p] by (auto split: option.splits)
    ultimately have ret: "InvokeServer route waitTime args s = Some (Inr r, s')" by simp
    from B[OF ret] ret show ?thesis by blast
  qed
  from A E D show ?thesis by blast
qed

text \<open>
  An instance of claim C10: on the demo peer the host's reply \<^verbatim>\<open>undefined\<close> arrives during
  the first wait. The call returns \<^verbatim>\<open>undefined\<close> at clock 0.2, as it does on the demo
  peer itself, where nothing arrives.
\<close>

theorem undefined_reply_is_timeout_witness:
  "arrivals 0.2 (future (demo_peer\<lparr>future := [(0.1, [Undefined]), (0.1, []), (0.1, [])]\<rparr>))
     = Undefined # [] \<and>
   (\<exists>s'. InvokeServer ''root/additions'' 0.2 []
            (demo_peer\<lparr>future := [(0.1, [Undefined]), (0.1, []), (0.1, [])]\<rparr>)
          = Some (Inr Undefined, s') \<and> clock s' = 0.2 \<and>
          InvokeServer ''root/additions'' 0.2 [] (demo_peer\<lparr>future := [(0.1, []), (0.1, []), (0.1, [])]\<rparr>)
          = Some (Inr Undefined, s')) \<and>
   sent (snd (invoke_listener 3 (InvokeListener (\<lambda>_ _ w. Reply Undefined w))
                \<lparr>UserId = 7, Name = ''peer''\<rparr> [] 0
                (snd (NewRoute ''root''
                        \<lparr>endPoint = ''additions'', rp_secure = True, rp_remoteType = Function,
                         rp_middleware = None\<rparr>
                        (snd (start (loaded (0::nat))))))))
     = [(RemoteEvent 3, 7, Undefined)]"
proof -
  let ?sv = "snd (NewRoute ''root''
                        \<lparr>endPoint = ''additions'', rp_secure = True, rp_remoteType = Function,
                         rp_middleware = None\<rparr>
                        (snd (start (loaded (0::nat)))))"
  let ?p = "\<lparr>UserId = 7, Name = ''peer''\<rparr>"
  have r3: "routes ?sv 3 = \<lparr>path = ''root'', name = ''additions'', secure = True, remoteType = Function,
                            middleware = None, remote = RemoteEvent 3, connection = None\<rparr>"
    by (simp add: NewRoute_def registry_defs Let_def)
  have sent0: "sent ?sv = []"
    by (simp add: NewRoute_def registry_defs Let_def)
  have rm: "run_middleware 3 ?p 0 [] ?sv = (True, ?sv) \<and>
            (\<lambda>_ _ w. Reply Undefined w) ?p [] (world ?sv) = Reply Undefined (world ?sv)"
    by (simp add: run_middleware_def r3)
  let ?s = "demo_peer\<lparr>future := [(0.1, [Undefined]), (0.1, []), (0.1, [])]\<rparr>"
  have arr: "arrivals 0.2 (future ?s) = Undefined # []" by simp
  have m: "?s\<lparr>future := mute (future ?s)\<rparr> = demo_peer\<lparr>future := [(0.1, []), (0.1, []), (0.1, [])]\<rparr>"
    by (simp add: mute_def)
  have long: "0.2 \<le> duration (future ?s)" by (simp add: duration_def)
  note claim = undefined_reply_is_timeout[OF arr, of "''root/additions''" "[]"]
  have ev: "InvokeServer ''root/additions'' 0.2 [] ?s
      = Some (Inr Undefined,
          demo_peer\<lparr>conns := [\<lparr>cc_remote = RemoteEvent 3, cc_eventType = Once,
                                cc_handler = CaptureResult, cc_Connected = False\<rparr>],
            fired := [(RemoteEvent 3, [])],
            client_instance := Some ((new_ClientNetwork (Table
              [(''root/additions'',
                \<lparr>sri_remote = RemoteEvent 3, sri_secure = True, sri_remoteType = Function,
                 sri_cooldown = Some 1\<rparr>)]))\<lparr>client_log := [''root/additions'' \<mapsto> \<lparr>lastFireServer = 0\<rparr>]\<rparr>),
            clock := 0.2, future := [(0.1, [])]\<rparr>)"
    by (simp add: InvokeServer_def demo_peer_def client_getRoute_def new_ClientNetwork_def
        cooldown_active_def receive_once_def disconnect_def Let_def)
  from claim have "map_option (\<lambda>(r, s'). (r, s'\<lparr>future := mute (future s')\<rparr>))
                   (InvokeServer ''root/additions'' 0.2 [] ?s)
           = InvokeServer ''root/additions'' 0.2 [] (?s\<lparr>future := mute (future ?s)\<rparr>)"
    by blast
  then have "InvokeServer ''root/additions'' 0.2 [] (demo_peer\<lparr>future := [(0.1, []), (0.1, []), (0.1, [])]\<rparr>)
      = map_option (\<lambda>(r, s'). (r, s'\<lparr>future := mute (future s')\<rparr>))
                   (InvokeServer ''root/additions'' 0.2 [] ?s)"
    by (simp only: m)
  with ev arr have peer: "arrivals 0.2 (future ?s) = Undefined # [] \<and>
   (\<exists>s'. InvokeServer ''root/additions'' 0.2 [] ?s = Some (Inr Undefined, s') \<and> clock s' = 0.2 \<and>
          InvokeServer ''root/additions'' 0.2 [] (demo_peer\<lparr>future := [(0.1, []), (0.1, []), (0.1, [])]\<rparr>)
          = Some (Inr Undefined, s'))"
    by (simp add: mute_def demo_peer_def)
  note host = undefined_reply_is_timeout[OF arr, where 'v = nat, THEN conjunct2, THEN conjunct2,
      rule_format,
      where a = 3 and callback = "\<lambda>_ _ w. Reply Undefined w" and player = ?p and margs = "[]"
        and t = 0 and sv = ?sv and sv' = ?sv and w' = "world ?sv"]
  from host[OF rm] have "invoke_listener 3 (InvokeListener (\<lambda>_ _ w. Reply Undefined w)) ?p [] 0 ?sv
      = (Inr (), ?sv\<lparr>world := world ?sv,
                       sent := sent ?sv @ [(remote (routes ?sv 3), UserId ?p, Undefined)]\<rparr>)" .
  then have "sent (snd (invoke_listener 3 (InvokeListener (\<lambda>_ _ w. Reply Undefined w)) ?p [] 0 ?sv))
      = [(RemoteEvent 3, 7, Undefined)]"
    by (simp add: sent0 r3)
  with peer show ?thesis by blast
qed

text \<open>
  Claim C2. Let the peer be uninitialized and let the bootstrap call of \<^verbatim>\<open>start\<close>
  capture nothing but \<^verbatim>\<open>undefined\<close> within its 5 seconds (no reply arrives, or the first
  one is \<^verbatim>\<open>undefined\<close>), the future reaching that far. Then \<^verbatim>\<open>start\<close> raises, the peer is
  uninitialized again, and in that state \<^verbatim>\<open>FireServer\<close>, \<^verbatim>\<open>OnEvent\<close>, \<^verbatim>\<open>InvokeServer\<close>
  and \<^verbatim>\<open>Disconnect\<close> raise the not-initialized error and leave the state as it is.
\<close>

theorem bootstrap_failure_leaves_uninitialized:
  assumes "client_instance s = None"
    and "no_defined_reply 5 (future s)"
    and "5 \<le> duration (future s)"
  shows "\<exists>s'. client_start s = Some (Inl BootstrapFailed, s') \<and> client_instance s' = None \<and>
           (\<forall>route args. FireServer route args s' = (Inl NotInitialized, s')) \<and>
           (\<forall>et route callback. client_OnEvent et route callback s' = (Inl NotInitialized, s')) \<and>
           (\<forall>route waitTime args. InvokeServer route waitTime args s' = Some (Inl NotInitialized, s')) \<and>
           (\<forall>route. client_Disconnect route s' = (Inl NotInitialized, s'))"
proof -
  let ?info = "\<lparr>sri_remote = get_tree_remote s, sri_secure = True, sri_remoteType = Function,
                sri_cooldown = Some 5\<rparr>"
  let ?inst = "new_ClientNetwork (Table [(''root/network/get-tree'', ?info)])"
  let ?s1 = "s\<lparr>client_instance := Some ?inst\<rparr>"
  have pre: "client_instance ?s1 = Some ?inst"
    "client_getRoute ?inst ''root/network/get-tree'' = Inr ?info"
    "sri_remoteType ?info = Function"
    "\<not> cooldown_active ?inst ''root/network/get-tree'' ?info (clock ?s1)"
    by (simp_all add: client_getRoute_def new_ClientNetwork_def cooldown_active_def)
  from assms(3) have "5 - (clock s - clock s) \<le> duration (future s)" by simp
  from wait_loop_total[OF this, of Undefined True] obtain now' r l rest where
    loop: "wait_loop (clock s) 5 (future s) (clock s) Undefined True = Some (now', r, l, rest)"
    by (cases "wait_loop (clock s) 5 (future s) (clock s) Undefined True") auto
  from assms(2) have "True \<longrightarrow> no_defined_reply (5 - (clock s - clock s)) (future s)" by simp
  from wait_loop_undefined[OF this loop] have r: "r = Undefined" by simp
  let ?s2 = "?s1\<lparr>conns := conns ?s1 @ [\<lparr>cc_remote = sri_remote ?info, cc_eventType = Once,
                                        cc_handler = CaptureResult, cc_Connected = False\<rparr>],
                  fired := fired ?s1 @ [(sri_remote ?info, [])],
                  client_instance :=
                    Some (?inst\<lparr>client_log := (client_log ?inst)(''root/network/get-tree'' \<mapsto> \<lparr>lastFireServer = clock ?s1\<rparr>)\<rparr>),
                  clock := now', future := rest\<rparr>"
  have inv: "InvokeServer ''root/network/get-tree'' 5 [] ?s1 = Some (Inr Undefined, ?s2)"
    unfolding InvokeServer_sent[OF pre] using loop r by simp
  let ?s' = "?s2\<lparr>client_instance := None\<rparr>"
  have st: "client_start s = Some (Inl BootstrapFailed, ?s')"
    using assms(1) inv by (simp add: client_start_def Let_def)
  have un: "client_instance ?s' = None" by simp
  have "\<forall>route args. FireServer route args ?s' = (Inl NotInitialized, ?s')"
    using un by (simp add: FireServer_def)
  moreover have "\<forall>et route callback. client_OnEvent et route callback ?s' = (Inl NotInitialized, ?s')"
    using un by (simp add: client_OnEvent_def)
  moreover have "\<forall>route waitTime args. InvokeServer route waitTime args ?s' = Some (Inl NotInitialized, ?s')"
    using un by (simp add: InvokeServer_def)
  moreover have "\<forall>route. client_Disconnect route ?s' = (Inl NotInitialized, ?s')"
    using un by (simp add: client_Disconnect_def)
  ultimately show ?thesis using st un by blast
qed

text \<open>
  An instance of claim C2: a fresh peer whose bootstrap call gets the reply
  \<^verbatim>\<open>undefined\<close> after one second and nothing else during six waits of one second.
\<close>

theorem bootstrap_failure_leaves_uninitialized_witness:
  "\<exists>s'. client_start
          \<lparr>client_instance = None, clock = 0, conns = ([] :: nat ClientConnection list), fired = [],
           get_tree_remote = RemoteEvent 2,
           future = [(1, [Undefined]), (1, []), (1, []), (1, []), (1, []), (1, [])]\<rparr>
        = Some (Inl BootstrapFailed, s') \<and>
        client_instance s' = None \<and>
        FireServer ''root/additions'' [] s' = (Inl NotInitialized, s') \<and>
        InvokeServer ''root/additions'' 5 [] s' = Some (Inl NotInitialized, s')"
proof -
  let ?s = "\<lparr>client_instance = None, clock = 0, conns = ([] :: nat ClientConnection list), fired = [],
           get_tree_remote = RemoteEvent 2,
           future = [(1, [Undefined]), (1, []), (1, []), (1, []), (1, []), (1, [])]\<rparr>"
  have 1: "client_instance ?s = None" by simp
  have 2: "no_defined_reply 5 (future ?s)" by (simp add: no_defined_reply_def)
  have 3: "5 \<le> duration (future ?s)" by (simp add: duration_def)
  from bootstrap_failure_leaves_uninitialized[OF 1 2 3] show ?thesis by blast
qed

end
